theory Spec2Isabelle
  imports Complex_Main
begin

section \<open>Data model\<close>

text \<open>
  JavaScript numbers are modelled as reals.  The arithmetic of the SchemeView
  constructor rounds every operation to the nearest double, as the source does; the
  pixel conversions, the repositioning and the bounding boxes are taken over exact
  arithmetic.  The infinities and NaN of the source have no counterpart among the reals:
  the constructor writes out what a quotient by zero does there, and the theorems about
  quotients are stated where the divisor is not zero.  Station codes, label ids and
  glyph ids are the Numbers of the metadata (\<open>@param {Array<Number>|Number} codes\<close>)
  and are modelled as naturals; as property names they never meet a member inherited
  from \<open>Object.prototype\<close>.  Strings are lists
  of characters, compared character by character.  Everything that raises in the source
  raises in the model: a function with effects returns the exception (if any) together
  with the state it leaves behind, because a JavaScript exception does not undo earlier
  assignments.
\<close>

type_synonym code = nat
type_synonym point = "real \<times> real"

text \<open>
  Element ids of the scheme document that the source looks up:
  \<open>'label-' + code\<close>, \<open>'station-' + id\<close> and the five literal layer ids.
\<close>

datatype elem_id =
    Label code
  | StationGlyph code
  | SchemeLayer
  | SchemeLayerStations
  | SchemeLayerLabels
  | HighlightLayerStations
  | HighlightLayerLabels

text \<open>Values the source assigns to style properties and attributes.\<close>

datatype css =
    CssText string
  | CssNum real
  | CssPx real
  | CssTranslate real real
  | CssViewBox real real real real

record rect_style =
  stroke :: css
  rect_opacity :: css

text \<open>
  An element of the scheme document: the style of its first \<open>rect\<close> descendant
  (\<open>getElementsByTagName('rect')[0]\<close>, \<open>None\<close> when there is none), its own
  \<open>style.opacity\<close>, its bounding box \<open>getBBox()\<close> as (x, y, width, height) and its
  child elements in document order.
\<close>

record element =
  rect :: "rect_style option"
  opacity :: css
  bbox :: "real \<times> real \<times> real \<times> real"
  children :: "elem_id list"

text \<open>\<open>getElementById\<close> is the lookup of the map; \<open>None\<close> is \<open>null\<close>.\<close>

type_synonym document = "elem_id \<rightharpoonup> element"

record station_meta =
  labelId :: code
  name :: string

text \<open>
  The metadata of a scheme.  \<open>md_stations\<close> lists the entries of the \<open>stations\<close> object
  in the order \<open>for (code in metadata)\<close> enumerates them; \<open>md_labels\<close> maps a label id
  to the \<open>stationIds\<close> of its record.
\<close>

record metadata =
  width :: real
  height :: real
  md_stations :: "(code \<times> station_meta) list"
  md_labels :: "code \<rightharpoonup> code list"

record Scheme =
  metaData :: metadata
  scheme_node :: document

definition getSize :: "Scheme \<Rightarrow> point" where
  "getSize s = (width (metaData s), height (metaData s))"

definition getStations :: "Scheme \<Rightarrow> (code \<times> station_meta) list" where
  "getStations s = md_stations (metaData s)"

definition getLabel :: "Scheme \<Rightarrow> code \<Rightarrow> code list option" where
  "getLabel s c = md_labels (metaData s) c"

definition createDom :: "Scheme \<Rightarrow> document" where
  "createDom s = scheme_node s"

datatype cause =
    UnknownCode code
  | NullElement elem_id
  | NoRect code
  | NoLabelMeta code
  | NullChild
  | NullContainer

text \<open>
  The only exception the modelled code raises is the TypeError of a member access on
  \<open>undefined\<close> or \<open>null\<close>; the cause records which lookup produced the missing value.
  \<open>LookupError\<close> is the error the specification names for a station code that is not
  in the collection.  No function of the source raises it; it is here so that this can
  be stated.
\<close>

datatype error = TypeError cause | LookupError code

section \<open>Numbers\<close>

text \<open>
  A JavaScript number is an IEEE 754 double, and every arithmetic operation returns the
  double nearest to the exact result, a tie going to the neighbour with the even
  significand.  \<open>double\<close> is that rounding: the significand has 53 bits, so a number
  with \<open>2 ^ k \<le> \<bar>x\<bar> < 2 ^ (k + 1)\<close> is rounded to a multiple of \<open>2 ^ (k - 52)\<close>.  The
  exponent is not bounded: overflow to Infinity, which needs a magnitude of about
  \<open>2 ^ 1024\<close>, and the subnormal numbers below \<open>2 ^ -1022\<close> are left out, so \<open>double\<close> is
  the rounding of the machine for 0 and for results of magnitude between \<open>2 ^ -1022\<close>
  and \<open>2 ^ 1023\<close>.  \<open>Math.min\<close> and \<open>Math.floor\<close> are exact.
\<close>

definition roundTiesToEven :: "real \<Rightarrow> int" where
  "roundTiesToEven x =
    (let f = \<lfloor>x\<rfloor>
     in if x - of_int f < 1 / 2 then f
        else if 1 / 2 < x - of_int f then f + 1
        else if even f then f else f + 1)"

definition double :: "real \<Rightarrow> real" where
  "double x =
    (if x = 0 then 0
     else of_int (roundTiesToEven (x / 2 powr of_int (\<lfloor>log 2 \<bar>x\<bar>\<rfloor> - 52)))
            * 2 powr of_int (\<lfloor>log 2 \<bar>x\<bar>\<rfloor> - 52))"

section \<open>SchemeView\<close>

text \<open>
  \<open>node_style\<close> is the style of the view's root node \<open>_node\<close>, \<open>schemeAttrs\<close> the
  attributes set on the root of \<open>_schemeNode\<close>, \<open>schemeNode\<close> the elements of
  \<open>_schemeNode\<close> by id.
\<close>

record SchemeView =
  scheme :: Scheme
  selfSize :: point
  zeroZoomScale :: real
  offset :: point
  node_style :: "string \<rightharpoonup> css"
  schemeAttrs :: "string \<rightharpoonup> css"
  schemeNode :: document

text \<open>
  The constructor.  A quotient by zero is Infinity in JavaScript, and \<open>Math.min\<close> of
  Infinity and \<open>y\<close> is \<open>y\<close>, so for a scheme of width 0 the base scale is the quotient
  for the height, and for one of height 0 the quotient for the width.  For a scheme of
  width 0 and height 0 the code gets the scale Infinity and the offset NaN on both axes;
  the real numbers have neither, and the model does not describe that scheme.
\<close>

definition new_SchemeView :: "Scheme \<Rightarrow> SchemeView" where
  "new_SchemeView s =
    (let sz = getSize s;
         z = (if fst sz = 0 then double (256 / snd sz)
              else if snd sz = 0 then double (256 / fst sz)
              else min (double (256 / fst sz)) (double (256 / snd sz)))
     in \<lparr> scheme = s,
          selfSize = sz,
          zeroZoomScale = z,
          offset = (of_int \<lfloor>double (double (256 - double (fst sz * z)) / 2)\<rfloor>,
                    of_int \<lfloor>double (double (256 - double (snd sz * z)) / 2)\<rfloor>),
          node_style = [''position'' \<mapsto> CssText ''absolute'',
                        ''width'' \<mapsto> CssPx (fst sz),
                        ''height'' \<mapsto> CssPx (snd sz)],
          schemeAttrs = [''width'' \<mapsto> CssText ''100%'',
                         ''height'' \<mapsto> CssText ''100%'',
                         ''viewBox'' \<mapsto> CssViewBox 0 0 (fst sz) (snd sz)],
          schemeNode = createDom s \<rparr>)"

definition fadeOut :: "SchemeView \<Rightarrow> error option \<times> SchemeView" where
  "fadeOut v =
    (case schemeNode v SchemeLayer of
       None \<Rightarrow> (Some (TypeError (NullElement SchemeLayer)), v)
     | Some e \<Rightarrow>
         (None, v\<lparr>schemeNode := (schemeNode v)(SchemeLayer \<mapsto> e\<lparr>opacity := CssText ''''\<rparr>)\<rparr>))"

definition fadeIn :: "SchemeView \<Rightarrow> error option \<times> SchemeView" where
  "fadeIn v =
    (case schemeNode v SchemeLayer of
       None \<Rightarrow> (Some (TypeError (NullElement SchemeLayer)), v)
     | Some e \<Rightarrow>
         (None, v\<lparr>schemeNode := (schemeNode v)(SchemeLayer \<mapsto> e\<lparr>opacity := CssNum 0.5\<rparr>)\<rparr>))"

definition prefixes :: "string list" where
  "prefixes = [''-webkit-'', ''-moz-'', ''-ms-'', ''-o-'', '''']"

definition updatePosition :: "SchemeView \<Rightarrow> point \<Rightarrow> real \<Rightarrow> SchemeView" where
  "updatePosition v clientCenter mapScale =
    (let scale = zeroZoomScale v * mapScale;
         off = (fst (offset v) + fst clientCenter, snd (offset v) + snd clientCenter);
         val = CssTranslate (fst off) (snd off);
         st1 = fold (\<lambda>prefix st.
                  st(prefix @ ''transform-origin'' \<mapsto> CssText ''0px 0px'',
                     prefix @ ''transform'' \<mapsto> val))
                prefixes (node_style v)
     in v\<lparr>node_style := st1(''width'' \<mapsto> CssPx (fst (selfSize v) * scale),
                              ''height'' \<mapsto> CssPx (snd (selfSize v) * scale))\<rparr>)"

definition toClientPixels :: "SchemeView \<Rightarrow> point \<Rightarrow> real \<Rightarrow> point" where
  "toClientPixels v globalPixels zoom =
    (let mapScale = 2 powr zoom;
         zeroZoomPixels = (fst globalPixels / mapScale, snd globalPixels / mapScale)
     in (fst zeroZoomPixels / zeroZoomScale v - fst (offset v),
         snd zeroZoomPixels / zeroZoomScale v - snd (offset v)))"

definition fromClientPixels :: "SchemeView \<Rightarrow> point \<Rightarrow> real \<Rightarrow> point" where
  "fromClientPixels v clientPixels zoom =
    (let zeroZoomPixels = ((fst clientPixels + fst (offset v)) * zeroZoomScale v,
                           (snd clientPixels + snd (offset v)) * zeroZoomScale v);
         mapScale = 2 powr zoom
     in (fst zeroZoomPixels * mapScale, snd zeroZoomPixels * mapScale))"

section \<open>Station\<close>

record annotation =
  ann_position :: point
  ann_properties :: string

record station =
  code :: code
  title :: string
  selected :: bool
  annotations :: "annotation list"

datatype change = Select | Deselect

text \<open>
  A fired \<open>selectionchange\<close> event: its \<open>type\<close> and the code of its \<open>target\<close>.  The
  event managers of the stations have the collection's manager as parent, so one log
  holds what is fired.
\<close>

datatype event = SelectionChange change code

definition new_Station :: "station_meta \<Rightarrow> station" where
  "new_Station m = \<lparr> code = labelId m, title = name m, selected = False, annotations = [] \<rparr>"

text \<open>A node reference is the id of the element; \<open>None\<close> is \<open>null\<close>.\<close>

definition getElementById :: "document \<Rightarrow> elem_id \<Rightarrow> elem_id option" where
  "getElementById d i = (case d i of None \<Rightarrow> None | Some e \<Rightarrow> Some i)"

definition getLabelNode :: "station \<Rightarrow> SchemeView \<Rightarrow> elem_id option" where
  "getLabelNode st v = getElementById (schemeNode v) (Label (code st))"

definition getNode :: "station \<Rightarrow> SchemeView \<Rightarrow> elem_id option" where
  "getNode st v = getElementById (schemeNode v) (StationGlyph (code st))"

definition getStationNodes :: "station \<Rightarrow> SchemeView \<Rightarrow> error + elem_id option list" where
  "getStationNodes st v =
    (case getLabel (scheme v) (code st) of
       None \<Rightarrow> Inl (TypeError (NoLabelMeta (code st)))
     | Some stationIds \<Rightarrow>
         Inr (map (\<lambda>i. getElementById (schemeNode v) (StationGlyph i)) stationIds))"

text \<open>
  \<open>parentNode.appendChild(element)\<close>: the element leaves its former parent and becomes
  the last child of \<open>parentNode\<close>.  Glyphs are taken not to contain the layer groups, so
  the DOM's hierarchy check never fails.
\<close>

definition appendChild :: "document \<Rightarrow> elem_id \<Rightarrow> elem_id \<Rightarrow> document" where
  "appendChild d p c =
    (\<lambda>i. case d i of
            None \<Rightarrow> None
          | Some e \<Rightarrow>
              Some (e\<lparr>children :=
                (if i = p then removeAll c (children e) @ [c] else removeAll c (children e))\<rparr>))"

text \<open>
  The \<open>forEach\<close> of \<open>_appendTo\<close>: \<open>parentNode\<close> was looked up once before the loop; the
  call on a \<open>null\<close> parent raises, and so does \<open>appendChild(null)\<close>.
\<close>

fun forEach_appendChild ::
  "elem_id option \<Rightarrow> elem_id \<Rightarrow> elem_id option list \<Rightarrow> document \<Rightarrow> error option \<times> document"
where
  "forEach_appendChild parentNode pid [] d = (None, d)"
| "forEach_appendChild parentNode pid (el # els) d =
    (case parentNode of
       None \<Rightarrow> (Some (TypeError (NullElement pid)), d)
     | Some p \<Rightarrow>
         (case el of
            None \<Rightarrow> (Some (TypeError NullChild), d)
          | Some c \<Rightarrow> forEach_appendChild parentNode pid els (appendChild d p c)))"

definition appendTo ::
  "SchemeView \<Rightarrow> elem_id \<Rightarrow> elem_id option list \<Rightarrow> error option \<times> SchemeView"
where
  "appendTo v pid elements =
    (let parentNode = getElementById (schemeNode v) pid;
         r = forEach_appendChild parentNode pid elements (schemeNode v)
     in (fst r, v\<lparr>schemeNode := snd r\<rparr>))"

definition Station_select ::
  "station \<Rightarrow> SchemeView \<Rightarrow> event list \<Rightarrow> error option \<times> station \<times> SchemeView \<times> event list"
where
  "Station_select st v evs =
    (if \<not> selected st then
       (case schemeNode v (Label (code st)) of
          None \<Rightarrow> (Some (TypeError (NullElement (Label (code st)))), st, v, evs)
        | Some labelNode \<Rightarrow>
            (let st1 = st\<lparr>selected := True\<rparr> in
             case rect labelNode of
               None \<Rightarrow> (Some (TypeError (NoRect (code st))), st1, v, evs)
             | Some rectNode \<Rightarrow>
                 (let v1 = v\<lparr>schemeNode := (schemeNode v)(Label (code st) \<mapsto>
                             labelNode\<lparr>rect := Some (rectNode\<lparr>stroke := CssText ''#bbb'',
                                                               rect_opacity := CssNum 1\<rparr>)\<rparr>)\<rparr> in
                  case getStationNodes st1 v1 of
                    Inl e \<Rightarrow> (Some e, st1, v1, evs)
                  | Inr nodes \<Rightarrow>
                      (case appendTo v1 HighlightLayerStations nodes of
                         (Some e, v2) \<Rightarrow> (Some e, st1, v2, evs)
                       | (None, v2) \<Rightarrow>
                           (case appendTo v2 HighlightLayerLabels [getLabelNode st1 v2] of
                              (Some e, v3) \<Rightarrow> (Some e, st1, v3, evs)
                            | (None, v3) \<Rightarrow>
                                (None, st1, v3, evs @ [SelectionChange Select (code st1)]))))))
     else (None, st, v, evs))"

definition Station_deselect ::
  "station \<Rightarrow> SchemeView \<Rightarrow> event list \<Rightarrow> error option \<times> station \<times> SchemeView \<times> event list"
where
  "Station_deselect st v evs =
    (if selected st then
       (case schemeNode v (Label (code st)) of
          None \<Rightarrow> (Some (TypeError (NullElement (Label (code st)))), st, v, evs)
        | Some labelNode \<Rightarrow>
            (let st1 = st\<lparr>selected := False\<rparr> in
             case rect labelNode of
               None \<Rightarrow> (Some (TypeError (NoRect (code st))), st1, v, evs)
             | Some rectNode \<Rightarrow>
                 (let v1 = v\<lparr>schemeNode := (schemeNode v)(Label (code st) \<mapsto>
                             labelNode\<lparr>rect := Some (rectNode\<lparr>stroke := CssText '''',
                                                               rect_opacity := CssText ''''\<rparr>)\<rparr>)\<rparr> in
                  case getStationNodes st1 v1 of
                    Inl e \<Rightarrow> (Some e, st1, v1, evs)
                  | Inr nodes \<Rightarrow>
                      (case appendTo v1 SchemeLayerStations nodes of
                         (Some e, v2) \<Rightarrow> (Some e, st1, v2, evs)
                       | (None, v2) \<Rightarrow>
                           (case appendTo v2 SchemeLayerLabels [getLabelNode st1 v2] of
                              (Some e, v3) \<Rightarrow> (Some e, st1, v3, evs)
                            | (None, v3) \<Rightarrow>
                                (None, st1, v3, evs @ [SelectionChange Deselect (code st1)]))))))
     else (None, st, v, evs))"

text \<open>The click listener installed by the constructor.\<close>

definition Station_click ::
  "station \<Rightarrow> SchemeView \<Rightarrow> event list \<Rightarrow> error option \<times> station \<times> SchemeView \<times> event list"
where
  "Station_click st v evs =
    (if selected st then Station_deselect st v evs else Station_select st v evs)"

text \<open>
  The host map as far as \<open>_getGeoBBox\<close> reads it: the projection's
  \<open>fromGlobalPixels\<close> and the current zoom.
\<close>

record host =
  fromGlobalPixels :: "point \<Rightarrow> real \<Rightarrow> point"
  getZoom :: real

definition getGeoBBox :: "SchemeView \<Rightarrow> host \<Rightarrow> element \<Rightarrow> point \<times> point" where
  "getGeoBBox v h svgNode =
    (case bbox svgNode of (x, y, w, ht) \<Rightarrow>
       (fromGlobalPixels h (fromClientPixels v (x, y) (getZoom h)) (getZoom h),
        fromGlobalPixels h (fromClientPixels v (x + w, y + ht) (getZoom h)) (getZoom h)))"

definition getPosition :: "station \<Rightarrow> SchemeView \<Rightarrow> host \<Rightarrow> error + point" where
  "getPosition st v h =
    (case schemeNode v (StationGlyph (code st)) of
       None \<Rightarrow> Inl (TypeError (NullElement (StationGlyph (code st))))
     | Some svgNode \<Rightarrow>
         (let b = getGeoBBox v h svgNode
          in Inr ((fst (fst b) + fst (snd b)) / 2, (snd (fst b) + snd (snd b)) / 2)))"

text \<open>
  \<open>annotate\<close>, as far as it changes the station: the annotation created at
  \<open>getPosition()\<close> is pushed onto \<open>_annotations\<close>.
\<close>

definition annotate :: "station \<Rightarrow> SchemeView \<Rightarrow> host \<Rightarrow> string \<Rightarrow> error option \<times> station" where
  "annotate st v h properties =
    (case getPosition st v h of
       Inl e \<Rightarrow> (Some e, st)
     | Inr pos \<Rightarrow>
         (None, st\<lparr>annotations := annotations st @
                      [\<lparr>ann_position = pos, ann_properties = properties\<rparr>]\<rparr>))"

text \<open>
  The operations of the source that change a station or the view it shares, as steps on
  the station, the view and the event log.
\<close>

datatype station_op =
    OpSelect
  | OpDeselect
  | OpClick
  | OpAnnotate host string
  | OpAppendTo elem_id "elem_id option list"
  | OpFadeIn
  | OpFadeOut
  | OpUpdatePosition point real

definition Station_apply ::
  "station_op \<Rightarrow> station \<Rightarrow> SchemeView \<Rightarrow> event list
    \<Rightarrow> error option \<times> station \<times> SchemeView \<times> event list"
where
  "Station_apply operation st v evs =
    (case operation of
       OpSelect \<Rightarrow> Station_select st v evs
     | OpDeselect \<Rightarrow> Station_deselect st v evs
     | OpClick \<Rightarrow> Station_click st v evs
     | OpAnnotate h properties \<Rightarrow>
         (let r = annotate st v h properties in (fst r, snd r, v, evs))
     | OpAppendTo pid elements \<Rightarrow>
         (let r = appendTo v pid elements in (fst r, st, snd r, evs))
     | OpFadeIn \<Rightarrow> (let r = fadeIn v in (fst r, st, snd r, evs))
     | OpFadeOut \<Rightarrow> (let r = fadeOut v in (fst r, st, snd r, evs))
     | OpUpdatePosition clientCenter mapScale \<Rightarrow>
         (None, st, updatePosition v clientCenter mapScale, evs))"

section \<open>StationCollection\<close>

text \<open>
  \<open>_stationsMap\<close> and the inherited Collection hold the same Station objects, one per
  key of the metadata; \<open>stations\<close> lists them with their keys in the order they were
  added.  \<open>getByCode\<close> is the lookup by key, \<open>each\<close> and \<open>filter\<close> traverse the list.
  The keys of a JavaScript object are distinct, so a metadata list stands for a
  \<open>stations\<close> object only if its keys are.
\<close>

record StationCollection =
  view :: SchemeView
  stations :: "(code \<times> station) list"
  events :: "event list"

definition new_StationCollection :: "SchemeView \<Rightarrow> StationCollection" where
  "new_StationCollection schemeView =
    fold (\<lambda>(k, m) c. c\<lparr>stations := stations c @ [(k, new_Station m)]\<rparr>)
      (getStations (scheme schemeView))
      \<lparr> view = schemeView, stations = [], events = [] \<rparr>"

definition getByCode :: "StationCollection \<Rightarrow> code \<Rightarrow> station option" where
  "getByCode c k = map_of (stations c) k"

text \<open>Writing back the mutated Station object that \<open>_stationsMap[k]\<close> refers to.\<close>

fun store :: "code \<Rightarrow> station \<Rightarrow> (code \<times> station) list \<Rightarrow> (code \<times> station) list" where
  "store k st [] = []"
| "store k st ((k', s) # xs) = (if k' = k then (k, st) # xs else (k', s) # store k st xs)"

text \<open>The argument of \<open>select\<close> and \<open>deselect\<close>: a single code or an array of codes.\<close>

datatype codes = One code | Many "code list"

definition concat_codes :: "codes \<Rightarrow> code list" where
  "concat_codes cs = (case cs of One k \<Rightarrow> [k] | Many ks \<Rightarrow> ks)"

definition put ::
  "StationCollection \<Rightarrow> code \<Rightarrow> station \<times> SchemeView \<times> event list \<Rightarrow> StationCollection"
where
  "put c k r = c\<lparr>stations := store k (fst r) (stations c), view := fst (snd r),
                 events := snd (snd r)\<rparr>"

fun select_forEach :: "StationCollection \<Rightarrow> code list \<Rightarrow> error option \<times> StationCollection" where
  "select_forEach c [] = (None, c)"
| "select_forEach c (k # ks) =
    (case getByCode c k of
       None \<Rightarrow> (Some (TypeError (UnknownCode k)), c)
     | Some st \<Rightarrow>
         (case Station_select st (view c) (events c) of
            (Some e, r) \<Rightarrow> (Some e, put c k r)
          | (None, r) \<Rightarrow> select_forEach (put c k r) ks))"

definition select :: "StationCollection \<Rightarrow> codes \<Rightarrow> error option \<times> StationCollection" where
  "select c cs = select_forEach c (concat_codes cs)"

fun deselect_forEach :: "StationCollection \<Rightarrow> code list \<Rightarrow> error option \<times> StationCollection" where
  "deselect_forEach c [] = (None, c)"
| "deselect_forEach c (k # ks) =
    (case getByCode c k of
       None \<Rightarrow> (Some (TypeError (UnknownCode k)), c)
     | Some st \<Rightarrow>
         (case Station_deselect st (view c) (events c) of
            (Some e, r) \<Rightarrow> (Some e, put c k r)
          | (None, r) \<Rightarrow> deselect_forEach (put c k r) ks))"

definition deselect :: "StationCollection \<Rightarrow> codes \<Rightarrow> error option \<times> StationCollection" where
  "deselect c cs = deselect_forEach c (concat_codes cs)"

definition getSelection :: "StationCollection \<Rightarrow> code list" where
  "getSelection c =
    fold (\<lambda>(k, st) cs. if selected st then cs @ [code st] else cs) (stations c) []"

subsection \<open>The drawing of a station\<close>

text \<open>
  What the transitions need of a document and what they leave in it.  An element is
  \<open>present\<close> when \<open>getElementById\<close> finds it; a label \<open>has_rect\<close> when it has a \<open>rect\<close>
  descendant; \<open>layers_of\<close> lists the layers that hold an element as a child.
\<close>

definition present :: "document \<Rightarrow> elem_id \<Rightarrow> bool" where
  "present d i = (d i \<noteq> None)"

definition has_rect :: "document \<Rightarrow> elem_id \<Rightarrow> bool" where
  "has_rect d i = (case d i of None \<Rightarrow> False | Some e \<Rightarrow> rect e \<noteq> None)"

definition children_of :: "document \<Rightarrow> elem_id \<Rightarrow> elem_id list" where
  "children_of d p = (case d p of None \<Rightarrow> [] | Some e \<Rightarrow> children e)"

definition layers :: "elem_id list" where
  "layers = [SchemeLayerStations, SchemeLayerLabels, HighlightLayerStations, HighlightLayerLabels]"

definition layers_of :: "document \<Rightarrow> elem_id \<Rightarrow> elem_id list" where
  "layers_of d x = filter (\<lambda>q. x \<in> set (children_of d q)) layers"

text \<open>
  The structural precondition of \<open>select\<close> and \<open>deselect\<close> on a station: the document
  has the station's label with a \<open>rect\<close>, the metadata has the label's record and the
  document every glyph it lists, and the four layers exist.
\<close>

definition drawable :: "SchemeView \<Rightarrow> station \<Rightarrow> bool" where
  "drawable v st =
    (has_rect (schemeNode v) (Label (code st))
     \<and> (case getLabel (scheme v) (code st) of
          None \<Rightarrow> False
        | Some stationIds \<Rightarrow> list_all (\<lambda>i. present (schemeNode v) (StationGlyph i)) stationIds)
     \<and> list_all (present (schemeNode v)) layers)"

text \<open>
  How a station is drawn: the style of its label's \<open>rect\<close>, the one layer that holds its
  label and the one layer that holds each of its glyphs.
\<close>

definition drawn_as :: "css \<Rightarrow> css \<Rightarrow> elem_id \<Rightarrow> elem_id \<Rightarrow> SchemeView \<Rightarrow> station \<Rightarrow> bool" where
  "drawn_as str opa sl ll v st =
    (map_option rect (schemeNode v (Label (code st)))
        = Some (Some \<lparr> stroke = str, rect_opacity = opa \<rparr>)
     \<and> layers_of (schemeNode v) (Label (code st)) = [ll]
     \<and> (case getLabel (scheme v) (code st) of
          None \<Rightarrow> False
        | Some stationIds \<Rightarrow>
            list_all (\<lambda>i. layers_of (schemeNode v) (StationGlyph i) = [sl]) stationIds))"

definition drawn_selected :: "SchemeView \<Rightarrow> station \<Rightarrow> bool" where
  "drawn_selected =
    drawn_as (CssText ''#bbb'') (CssNum 1) HighlightLayerStations HighlightLayerLabels"

definition drawn_unselected :: "SchemeView \<Rightarrow> station \<Rightarrow> bool" where
  "drawn_unselected =
    drawn_as (CssText '''') (CssText '''') SchemeLayerStations SchemeLayerLabels"

text \<open>
  For the proofs: \<open>transition\<close> is the body that \<open>Station_select\<close> and
  \<open>Station_deselect\<close> share, with the flag to reach, the style, the layers and the event
  type as parameters; \<open>redraw\<close> is the document a completed transition leaves; and
  \<open>forEach_station\<close> is the loop that \<open>select\<close> and \<open>deselect\<close> share.
\<close>

definition transition ::
  "bool \<Rightarrow> css \<Rightarrow> css \<Rightarrow> elem_id \<Rightarrow> elem_id \<Rightarrow> change \<Rightarrow> station \<Rightarrow> SchemeView \<Rightarrow> event list
    \<Rightarrow> error option \<times> station \<times> SchemeView \<times> event list"
where
  "transition target str opa sl ll ch st v evs =
    (if selected st \<noteq> target then
       (case schemeNode v (Label (code st)) of
          None \<Rightarrow> (Some (TypeError (NullElement (Label (code st)))), st, v, evs)
        | Some labelNode \<Rightarrow>
            (let st1 = st\<lparr>selected := target\<rparr> in
             case rect labelNode of
               None \<Rightarrow> (Some (TypeError (NoRect (code st))), st1, v, evs)
             | Some rectNode \<Rightarrow>
                 (let v1 = v\<lparr>schemeNode := (schemeNode v)(Label (code st) \<mapsto>
                             labelNode\<lparr>rect := Some (rectNode\<lparr>stroke := str,
                                                               rect_opacity := opa\<rparr>)\<rparr>)\<rparr> in
                  case getStationNodes st1 v1 of
                    Inl e \<Rightarrow> (Some e, st1, v1, evs)
                  | Inr nodes \<Rightarrow>
                      (case appendTo v1 sl nodes of
                         (Some e, v2) \<Rightarrow> (Some e, st1, v2, evs)
                       | (None, v2) \<Rightarrow>
                           (case appendTo v2 ll [getLabelNode st1 v2] of
                              (Some e, v3) \<Rightarrow> (Some e, st1, v3, evs)
                            | (None, v3) \<Rightarrow>
                                (None, st1, v3, evs @ [SelectionChange ch (code st1)]))))))
     else (None, st, v, evs))"

definition redraw :: "css \<Rightarrow> css \<Rightarrow> elem_id \<Rightarrow> elem_id \<Rightarrow> SchemeView \<Rightarrow> station \<Rightarrow> document" where
  "redraw str opa sl ll v st =
    (case schemeNode v (Label (code st)) of
       None \<Rightarrow> schemeNode v
     | Some e \<Rightarrow>
         (case rect e of
            None \<Rightarrow> schemeNode v
          | Some r \<Rightarrow>
              (case getLabel (scheme v) (code st) of
                 None \<Rightarrow> schemeNode v
               | Some stationIds \<Rightarrow>
                   appendChild
                     (fold (\<lambda>i d. appendChild d sl (StationGlyph i)) stationIds
                        ((schemeNode v)(Label (code st) \<mapsto>
                           e\<lparr>rect := Some (r\<lparr>stroke := str, rect_opacity := opa\<rparr>)\<rparr>)))
                     ll (Label (code st)))))"

definition all_drawable :: "StationCollection \<Rightarrow> bool" where
  "all_drawable c = list_all (\<lambda>(k, st). drawable (view c) st) (stations c)"

fun forEach_station ::
  "(station \<Rightarrow> SchemeView \<Rightarrow> event list \<Rightarrow> error option \<times> station \<times> SchemeView \<times> event list)
    \<Rightarrow> StationCollection \<Rightarrow> code list \<Rightarrow> error option \<times> StationCollection"
where
  "forEach_station T c [] = (None, c)"
| "forEach_station T c (k # ks) =
    (case getByCode c k of
       None \<Rightarrow> (Some (TypeError (UnknownCode k)), c)
     | Some st \<Rightarrow>
         (case T st (view c) (events c) of
            (Some e, r) \<Rightarrow> (Some e, put c k r)
          | (None, r) \<Rightarrow> forEach_station T (put c k r) ks))"

subsection \<open>Search\<close>

text \<open>\<open>title.split(' ')\<close>: the pieces between the separators, empty pieces included.\<close>

fun split :: "char \<Rightarrow> string \<Rightarrow> string list" where
  "split sep [] = [[]]"
| "split sep (x # xs) =
    (if x = sep then [] # split sep xs
     else (case split sep xs of [] \<Rightarrow> [[x]] | t # ts \<Rightarrow> (x # t) # ts))"

definition substr0 :: "string \<Rightarrow> nat \<Rightarrow> string" where
  "substr0 token n = take n token"

definition matches :: "string \<Rightarrow> station \<Rightarrow> bool" where
  "matches request st =
    list_ex (\<lambda>token. substr0 token (length request) = request) (split (CHR '' '') (title st))"

text \<open>The value the returned promise is fulfilled with.\<close>

definition search :: "StationCollection \<Rightarrow> string \<Rightarrow> station list" where
  "search c request = filter (matches request) (map snd (stations c))"

text \<open>
  The match as the specification words it, for comparison with \<open>matches\<close>: the tokens
  of a title are delimited by any whitespace character (tab, line feed, vertical tab,
  form feed, carriage return, space).
\<close>

definition is_whitespace :: "char \<Rightarrow> bool" where
  "is_whitespace x = (x \<in> set [CHR 0x09, CHR 0x0A, CHR 0x0B, CHR 0x0C, CHR 0x0D, CHR '' ''])"

fun spec_whitespace_tokens :: "string \<Rightarrow> string list" where
  "spec_whitespace_tokens [] = [[]]"
| "spec_whitespace_tokens (x # xs) =
    (if is_whitespace x then [] # spec_whitespace_tokens xs
     else (case spec_whitespace_tokens xs of [] \<Rightarrow> [[x]] | t # ts \<Rightarrow> (x # t) # ts))"

definition spec_matches :: "string \<Rightarrow> station \<Rightarrow> bool" where
  "spec_matches request st =
    list_ex (\<lambda>token. take (length request) token = request) (spec_whitespace_tokens (title st))"

definition spec_search :: "StationCollection \<Rightarrow> string \<Rightarrow> station list" where
  "spec_search c request = filter (spec_matches request) (map snd (stations c))"

text \<open>
  Where a request can sit in a title: at its start or right after a separator
  (\<open>starts_token\<close>), or right after a separator only (\<open>starts_later\<close>).
\<close>

definition starts_token :: "char \<Rightarrow> string \<Rightarrow> string \<Rightarrow> bool" where
  "starts_token sep r xs = (\<exists>pre suf. xs = pre @ r @ suf \<and> (pre = [] \<or> last pre = sep))"

definition starts_later :: "char \<Rightarrow> string \<Rightarrow> string \<Rightarrow> bool" where
  "starts_later sep r xs = (\<exists>pre suf. xs = pre @ r @ suf \<and> pre \<noteq> [] \<and> last pre = sep)"

section \<open>SchemeLayer\<close>

text \<open>
  The pane of the host map as \<open>_updateSchemePosition\<close> reads it:
  \<open>toClientPixels([0, 0])\<close> and \<open>getZoom()\<close>.
\<close>

record pane =
  pane_origin :: point
  pane_zoom :: real

definition getScaleFromZoom :: "real \<Rightarrow> real" where
  "getScaleFromZoom z = 2 powr z"

definition LOG2E :: real where
  "LOG2E = 1 / ln 2"

definition getZoomFromScale :: "real \<Rightarrow> real" where
  "getZoomFromScale scale = ln scale * LOG2E"

definition SQUARE_SIZE :: real where
  "SQUARE_SIZE = 256"

definition getFitZoom :: "real \<times> real \<Rightarrow> real" where
  "getFitZoom containerNode =
    getZoomFromScale (min (fst containerNode / SQUARE_SIZE) (snd containerNode / SQUARE_SIZE))"

definition updateSchemePosition :: "SchemeView \<Rightarrow> pane \<Rightarrow> SchemeView" where
  "updateSchemePosition v p = updatePosition v (pane_origin p) (2 powr pane_zoom p)"

section \<open>TransportMap\<close>

definition schemeIdByCity :: "(string \<times> nat) list" where
  "schemeIdByCity =
    [(''moscow'', 1), (''spb'', 2), (''kiev'', 8), (''kharkov'', 9), (''minsk'', 13)]"

text \<open>
  The browser as far as the constructor depends on it: the elements of the page by id,
  each with its \<open>clientWidth\<close> and \<open>clientHeight\<close>, and the members that every object
  inherits from \<open>Object.prototype\<close>, by name, each with the text that \<open>join\<close> writes for
  it.
\<close>

record browser =
  page :: "string \<rightharpoonup> real \<times> real"
  objectPrototype :: "string \<rightharpoonup> string"

text \<open>
  \<open>this._schemeIdByCity[city]\<close>.  \<open>_schemeIdByCity\<close> is an object literal, so a read that
  misses the table is answered by \<open>Object.prototype\<close>: for the name of an inherited
  member it yields that member, and \<open>undefined\<close> only otherwise.
\<close>

datatype scheme_id = Own nat | Inherited string | Undefined

definition lookupSchemeId :: "browser \<Rightarrow> string \<Rightarrow> scheme_id" where
  "lookupSchemeId b city =
    (case map_of schemeIdByCity city of
       Some n \<Rightarrow> Own n
     | None \<Rightarrow>
         (case objectPrototype b city of Some txt \<Rightarrow> Inherited txt | None \<Rightarrow> Undefined))"

text \<open>
  The arguments \<open>state\<close> and \<open>options\<close>: every property may be missing.  \<open>extend\<close> lays
  the given properties over the defaults; \<open>lang\<close> and \<open>zoom\<close> have no default.
\<close>

record options =
  path :: "string option"
  minZoom :: "real option"
  maxZoom :: "real option"
  lang :: "string option"

record state =
  shaded :: "bool option"
  center :: "point option"
  selection :: "code list option"
  st_zoom :: "real option"

definition extend_options :: "options \<Rightarrow> options" where
  "extend_options opts =
    \<lparr> path = Some (case path opts of None \<Rightarrow> ''node_modules/metro-data/'' | Some p \<Rightarrow> p),
      minZoom = Some (case minZoom opts of None \<Rightarrow> 0 | Some z \<Rightarrow> z),
      maxZoom = Some (case maxZoom opts of None \<Rightarrow> 3 | Some z \<Rightarrow> z),
      lang = lang opts \<rparr>"

definition extend_state :: "state \<Rightarrow> state" where
  "extend_state s =
    \<lparr> shaded = Some (case shaded s of None \<Rightarrow> False | Some b \<Rightarrow> b),
      center = Some (case center s of None \<Rightarrow> (0, 0) | Some p \<Rightarrow> p),
      selection = Some (case selection s of None \<Rightarrow> [] | Some cs \<Rightarrow> cs),
      st_zoom = st_zoom s \<rparr>"

text \<open>
  The container argument: an id to look up in the page, or an element given by its
  \<open>clientWidth\<close> and \<open>clientHeight\<close>.
\<close>

datatype container = ContainerId string | ContainerElement "real \<times> real"

record TransportMap =
  schemeId :: scheme_id
  tm_options :: options
  tm_state :: state
  tm_container :: "(real \<times> real) option"

definition digit :: "nat \<Rightarrow> char" where
  "digit n = char_of (48 + n)"

function string_of_nat :: "nat \<Rightarrow> string" where
  "string_of_nat n = (if n < 10 then [digit n] else string_of_nat (n div 10) @ [digit (n mod 10)])"
  by pat_completeness auto
termination
  by (relation "measure id") auto

text \<open>
  \<open>Array.prototype.join\<close> writes \<open>undefined\<close> as the empty string and a number in
  decimal.
\<close>

definition join_id :: "scheme_id \<Rightarrow> string" where
  "join_id i =
    (case i of Own n \<Rightarrow> string_of_nat n | Undefined \<Rightarrow> '''' | Inherited txt \<Rightarrow> txt)"

definition join_string :: "string option \<Rightarrow> string" where
  "join_string s = (case s of None \<Rightarrow> '''' | Some t \<Rightarrow> t)"

text \<open>\<open>_loadScheme\<close>: the URL that \<open>Scheme.create\<close> is called with and requests.\<close>

definition loadScheme :: "TransportMap \<Rightarrow> string" where
  "loadScheme t =
    concat [join_string (path (tm_options t)), join_id (schemeId t), ''.'',
            join_string (lang (tm_options t)), ''.svg'']"

text \<open>
  The constructor up to the request it returns the promise of: the object it has set up
  and the URL requested.
\<close>

definition new_TransportMap ::
  "browser \<Rightarrow> string \<Rightarrow> container \<Rightarrow> state \<Rightarrow> options \<Rightarrow> error + TransportMap \<times> string"
where
  "new_TransportMap b city cont s opts =
    (let t = \<lparr> schemeId = lookupSchemeId b city,
               tm_options = extend_options opts,
               tm_state = extend_state s,
               tm_container =
                 (case cont of ContainerId i \<Rightarrow> page b i | ContainerElement e \<Rightarrow> Some e) \<rparr>
     in case st_zoom (tm_state t) of
          Some z \<Rightarrow> Inr (t, loadScheme t)
        | None \<Rightarrow>
            (case tm_container t of
               None \<Rightarrow> Inl (TypeError NullContainer)
             | Some e \<Rightarrow>
                 (let t' = t\<lparr>tm_state := (tm_state t)\<lparr>st_zoom := Some (getFitZoom e)\<rparr>\<rparr>
                  in Inr (t', loadScheme t'))))"

section \<open>Example data\<close>

text \<open>A scheme of 512 by 256 diagram pixels without stations.\<close>

definition scheme0 :: Scheme where
  "scheme0 =
    \<lparr> metaData = \<lparr> width = 512, height = 256, md_stations = [], md_labels = Map.empty \<rparr>,
      scheme_node = Map.empty \<rparr>"

text \<open>Schemes of 49 by 49 and of 364 by 273 diagram pixels without stations.\<close>

definition scheme49 :: Scheme where
  "scheme49 =
    \<lparr> metaData = \<lparr> width = 49, height = 49, md_stations = [], md_labels = Map.empty \<rparr>,
      scheme_node = Map.empty \<rparr>"

definition scheme364 :: Scheme where
  "scheme364 =
    \<lparr> metaData = \<lparr> width = 364, height = 273, md_stations = [], md_labels = Map.empty \<rparr>,
      scheme_node = Map.empty \<rparr>"

text \<open>
  A scheme with three stations.  The entry with key 7 carries the label id 3; label 5 has
  two station glyphs.  All glyphs start in the normal layers and the highlight layers are
  empty.
\<close>

definition element0 :: element where
  "element0 = \<lparr> rect = None, opacity = CssText '''', bbox = (0, 0, 0, 0), children = [] \<rparr>"

definition label0 :: element where
  "label0 = element0\<lparr>rect := Some \<lparr> stroke = CssText '''', rect_opacity = CssText '''' \<rparr>\<rparr>"

definition doc1 :: document where
  "doc1 =
    [SchemeLayer \<mapsto> element0\<lparr>children := [SchemeLayerStations, SchemeLayerLabels]\<rparr>,
     SchemeLayerStations \<mapsto>
       element0\<lparr>children := [StationGlyph 2, StationGlyph 5, StationGlyph 6, StationGlyph 3]\<rparr>,
     SchemeLayerLabels \<mapsto> element0\<lparr>children := [Label 2, Label 5, Label 3]\<rparr>,
     HighlightLayerStations \<mapsto> element0,
     HighlightLayerLabels \<mapsto> element0,
     StationGlyph 2 \<mapsto> element0,
     StationGlyph 5 \<mapsto> element0,
     StationGlyph 6 \<mapsto> element0,
     StationGlyph 3 \<mapsto> element0,
     Label 2 \<mapsto> label0,
     Label 5 \<mapsto> label0,
     Label 3 \<mapsto> label0]"

definition scheme1 :: Scheme where
  "scheme1 =
    \<lparr> metaData =
        \<lparr> width = 512, height = 256,
          md_stations =
            [(2, \<lparr> labelId = 2, name = ''Central Park'' \<rparr>),
             (5, \<lparr> labelId = 5, name = ''Centennial'' \<rparr>),
             (7, \<lparr> labelId = 3, name = ''Park Row'' \<rparr>)],
          md_labels = [2 \<mapsto> [2], 5 \<mapsto> [5, 6], 3 \<mapsto> [3]] \<rparr>,
      scheme_node = doc1 \<rparr>"

definition collection1 :: StationCollection where
  "collection1 = new_StationCollection (new_SchemeView scheme1)"

text \<open>The view of that scheme, and the station built from its first entry.\<close>

definition view1 :: SchemeView where
  "view1 = new_SchemeView scheme1"

definition station2 :: station where
  "station2 = new_Station \<lparr> labelId = 2, name = ''Central Park'' \<rparr>"


text \<open>A scheme whose only station has a tab between the two words of its name.\<close>

definition scheme2 :: Scheme where
  "scheme2 =
    \<lparr> metaData =
        \<lparr> width = 256, height = 256,
          md_stations = [(1, \<lparr> labelId = 1, name = ''Central'' @ [CHR 0x09] @ ''Park'' \<rparr>)],
          md_labels = [1 \<mapsto> [1]] \<rparr>,
      scheme_node = Map.empty \<rparr>"

definition collection2 :: StationCollection where
  "collection2 = new_StationCollection (new_SchemeView scheme2)"

text \<open>
  A browser whose page has no element with an id, and constructor arguments that give
  neither a state nor options.
\<close>

definition browser0 :: browser where
  "browser0 =
    \<lparr> page = Map.empty,
      objectPrototype =
        [''constructor'' \<mapsto> ''function Object() { [native code] }'',
         ''toString'' \<mapsto> ''function toString() { [native code] }'',
         ''valueOf'' \<mapsto> ''function valueOf() { [native code] }'',
         ''hasOwnProperty'' \<mapsto> ''function hasOwnProperty() { [native code] }''] \<rparr>"

definition state0 :: state where
  "state0 = \<lparr> shaded = None, center = None, selection = None, st_zoom = None \<rparr>"

definition options0 :: options where
  "options0 = \<lparr> path = None, minZoom = None, maxZoom = None, lang = None \<rparr>"

section \<open>SchemeView: base scale and coordinate conversions\<close>

subsection \<open>Rounding to the nearest double\<close>

lemma rte_of_int: "roundTiesToEven (of_int n) = n"
  by (simp add: roundTiesToEven_def)

lemma rte_ge_floor: "\<lfloor>x\<rfloor> \<le> roundTiesToEven x"
  by (simp add: roundTiesToEven_def Let_def)

lemma rte_le_floor_Suc: "roundTiesToEven x \<le> \<lfloor>x\<rfloor> + 1"
  by (simp add: roundTiesToEven_def Let_def)

lemma rte_mono:
  assumes "x \<le> y"
  shows "roundTiesToEven x \<le> roundTiesToEven y"
proof (cases "\<lfloor>x\<rfloor> = \<lfloor>y\<rfloor>")
  case True
  then show ?thesis using assms by (auto simp: roundTiesToEven_def Let_def)
next
  case False
  then have "\<lfloor>x\<rfloor> + 1 \<le> \<lfloor>y\<rfloor>"
    using floor_mono [OF assms] by linarith
  then show ?thesis
    using rte_le_floor_Suc [of x] rte_ge_floor [of y] by linarith
qed

lemma rte_near: "\<bar>of_int (roundTiesToEven x) - x\<bar> \<le> 1 / 2"
proof -
  have "of_int \<lfloor>x\<rfloor> \<le> x" and "x < of_int \<lfloor>x\<rfloor> + 1"
    by linarith+
  then show ?thesis
    by (auto simp: roundTiesToEven_def Let_def)
qed

lemma rte_bounds:
  assumes "of_int a \<le> x" and "x \<le> of_int b"
  shows "a \<le> roundTiesToEven x" and "roundTiesToEven x \<le> b"
  using rte_mono [OF assms(1)] rte_mono [OF assms(2)] by (simp_all add: rte_of_int)

lemma significand_range:
  assumes "0 < x"
  shows "2 ^ 52 \<le> x / 2 powr of_int (\<lfloor>log 2 x\<rfloor> - 52)"
    and "x / 2 powr of_int (\<lfloor>log 2 x\<rfloor> - 52) < 2 ^ 53"
proof -
  let ?k = "\<lfloor>log 2 x\<rfloor>"
  have k: "2 powr of_int ?k \<le> x" "x < 2 powr (of_int ?k + 1)"
    using floor_log_eq_powr_iff [of x 2 ?k] assms by simp_all
  have e: "(2::real) powr of_int (?k - 52) = 2 powr of_int ?k / 2 ^ 52"
    by (simp add: powr_diff)
  have p: "(0::real) < 2 powr of_int ?k" by simp
  show "2 ^ 52 \<le> x / 2 powr of_int (?k - 52)"
    using k(1) p unfolding e by (simp add: field_simps)
  have "x < 2 powr of_int ?k * 2" using k(2) by (simp add: powr_add)
  then show "x / 2 powr of_int (?k - 52) < 2 ^ 53"
    using p unfolding e by (simp add: field_simps)
qed

lemma double_pos_eq:
  assumes "0 < x"
  shows "double x = of_int (roundTiesToEven (x / 2 powr of_int (\<lfloor>log 2 x\<rfloor> - 52)))
            * 2 powr of_int (\<lfloor>log 2 x\<rfloor> - 52)"
  using assms by (simp add: double_def)

lemma double_eval_int:
  assumes "0 < x" and "2 ^ 52 \<le> x / 2 powr of_int e" and "x / 2 powr of_int e < 2 ^ 53"
  shows "double x = of_int (roundTiesToEven (x / 2 powr of_int e)) * 2 powr of_int e"
proof -
  have p: "(0::real) < 2 powr of_int e" by simp
  have "(2::real) powr of_int (e + 52) = 2 powr of_int e * 2 ^ 52"
    by (simp add: powr_add)
  then have a: "2 powr of_int (e + 52) \<le> x"
    using assms(2) p by (simp add: field_simps)
  have "(2::real) powr (of_int (e + 52) + 1) = 2 powr of_int e * 2 ^ 53"
    by (simp add: powr_add)
  then have b: "x < 2 powr (of_int (e + 52) + 1)"
    using assms(3) p by (simp add: field_simps)
  have "\<lfloor>log 2 x\<rfloor> = e + 52"
    using floor_log_eq_powr_iff [of x 2 "e + 52"] assms(1) a b by simp
  then show ?thesis
    using assms(1) by (simp add: double_pos_eq)
qed

lemma double_eval:
  assumes "0 < x" and "2 ^ 52 \<le> x * 2 ^ n" and "x * 2 ^ n < 2 ^ 53"
  shows "double x = of_int (roundTiesToEven (x * 2 ^ n)) / 2 ^ n"
proof -
  have "(2::real) powr of_int (- int n) = 1 / 2 ^ n"
    by (simp add: powr_minus powr_realpow inverse_eq_divide)
  then show ?thesis
    using double_eval_int [of x "- int n"] assms by simp
qed

lemma double_exact:
  assumes "2 ^ 52 \<le> m" and "m < 2 ^ 53"
  shows "double (of_int m / 2 ^ n) = of_int m / 2 ^ n"
proof -
  have m: "(2::real) ^ 52 \<le> of_int m" "of_int m < (2::real) ^ 53"
    using assms by (metis of_int_le_iff of_int_numeral of_int_power, metis of_int_less_iff of_int_numeral of_int_power)
  have "0 < (of_int m :: real) / 2 ^ n" using m by simp
  then show ?thesis
    using double_eval [of "of_int m / 2 ^ n" n] m by (simp add: rte_of_int)
qed

lemma double_pos:
  assumes "0 < x"
  shows "0 < double x"
proof -
  have "of_int (2 ^ 52) \<le> x / 2 powr of_int (\<lfloor>log 2 x\<rfloor> - 52)"
    using significand_range(1) [OF assms] by simp
  then have "2 ^ 52 \<le> roundTiesToEven (x / 2 powr of_int (\<lfloor>log 2 x\<rfloor> - 52))"
    using rte_mono rte_of_int by metis
  moreover have "(0::int) < 2 ^ 52"
    by simp
  ultimately have "0 < roundTiesToEven (x / 2 powr of_int (\<lfloor>log 2 x\<rfloor> - 52))"
    by linarith
  then show ?thesis
    using assms by (simp add: double_pos_eq)
qed

lemma double_mono:
  assumes "0 < x" and "x \<le> y"
  shows "double x \<le> double y"
proof -
  let ?kx = "\<lfloor>log 2 x\<rfloor>" and ?ky = "\<lfloor>log 2 y\<rfloor>"
  let ?tx = "x / 2 powr of_int (?kx - 52)" and ?ty = "y / 2 powr of_int (?ky - 52)"
  have y: "0 < y" using assms by linarith
  have k: "?kx \<le> ?ky"
    using assms y by (intro floor_mono) simp
  show ?thesis
  proof (cases "?kx = ?ky")
    case True
    have "?tx \<le> y / 2 powr of_int (?kx - 52)"
      using assms(2) by (simp add: divide_right_mono)
    then have "roundTiesToEven ?tx \<le> roundTiesToEven ?ty"
      unfolding True by (rule rte_mono)
    then have "(of_int (roundTiesToEven ?tx) :: real) * 2 powr of_int (?kx - 52)
        \<le> of_int (roundTiesToEven ?ty) * 2 powr of_int (?kx - 52)"
      by (intro mult_right_mono) simp_all
    then show ?thesis
      using assms(1) y True by (simp add: double_pos_eq)
  next
    case False
    then have lt: "?kx + 1 \<le> ?ky" using k by linarith
    have "?tx \<le> of_int (2 ^ 53)"
      using significand_range(2) [OF assms(1)] by simp
    then have "roundTiesToEven ?tx \<le> 2 ^ 53"
      using rte_mono rte_of_int by metis
    then have "(of_int (roundTiesToEven ?tx) :: real) \<le> 2 ^ 53"
      by (metis of_int_le_iff of_int_numeral of_int_power)
    then have "double x \<le> 2 ^ 53 * 2 powr of_int (?kx - 52)"
      using assms(1) by (simp add: double_pos_eq mult_right_mono)
    also have "\<dots> = 2 powr of_int (?kx + 1)"
      by (simp add: powr_diff powr_add)
    also have "\<dots> \<le> 2 powr of_int ?ky"
      using lt by (simp add: powr_mono del: of_int_add)
    also have "\<dots> = 2 ^ 52 * 2 powr of_int (?ky - 52)"
      by (simp add: powr_diff)
    also have "\<dots> \<le> double y"
    proof -
      have "of_int (2 ^ 52) \<le> ?ty"
        using significand_range(1) [OF y] by simp
      then have "2 ^ 52 \<le> roundTiesToEven ?ty"
        using rte_mono rte_of_int by metis
      then have "(2::real) ^ 52 \<le> of_int (roundTiesToEven ?ty)"
        by (metis of_int_le_iff of_int_numeral of_int_power)
      then show ?thesis
        using y by (simp add: double_pos_eq mult_right_mono)
    qed
    finally show ?thesis .
  qed
qed

lemma double_error:
  assumes "0 < x"
  shows "\<bar>double x - x\<bar> \<le> x / 2 ^ 53"
proof -
  let ?k = "\<lfloor>log 2 x\<rfloor>"
  let ?u = "(2::real) powr of_int (?k - 52)"
  have u: "0 < ?u" by simp
  have "double x - x = (of_int (roundTiesToEven (x / ?u)) - x / ?u) * ?u"
    using assms u by (simp add: double_pos_eq field_simps)
  then have "\<bar>double x - x\<bar> = \<bar>of_int (roundTiesToEven (x / ?u)) - x / ?u\<bar> * ?u"
    using u by (simp add: abs_mult)
  also have "\<dots> \<le> 1 / 2 * ?u"
    using rte_near [of "x / ?u"] u by (intro mult_right_mono) simp_all
  also have "\<dots> \<le> x / 2 ^ 53"
  proof -
    have "2 ^ 52 * ?u \<le> x"
      using significand_range(1) [OF assms] u by (simp add: field_simps)
    then show ?thesis by simp
  qed
  finally show ?thesis .
qed

lemma double_256_above: "double (256 + 1 / 2 ^ 45) = 256"
proof -
  have "double (256 + 1 / 2 ^ 45)
      = of_int (roundTiesToEven ((256 + 1 / 2 ^ 45) * 2 ^ 44)) / 2 ^ 44"
    by (rule double_eval) simp_all
  also have "roundTiesToEven ((256 + 1 / 2 ^ 45) * 2 ^ 44) = 2 ^ 52"
    by (simp add: roundTiesToEven_def Let_def)
  finally show ?thesis by simp
qed

lemma double_256_below: "double (256 - 1 / 2 ^ 45) = 256 - 1 / 2 ^ 45"
  using double_exact [of "2 ^ 53 - 1" 45] by simp

lemma product_le_256:
  assumes "0 < w" and "0 < s" and "s \<le> double (256 / w)"
  shows "double (w * s) \<le> 256"
proof -
  have q: "0 < 256 / w" using assms(1) by simp
  have "double (256 / w) \<le> 256 / w + 256 / w / 2 ^ 53"
    using double_error [OF q] by linarith
  then have "s \<le> 256 / w + 256 / w / 2 ^ 53"
    using assms(3) by linarith
  then have "w * s \<le> w * (256 / w + 256 / w / 2 ^ 53)"
    using assms(1) by (intro mult_left_mono) simp_all
  also have "\<dots> = 256 + 1 / 2 ^ 45"
    using assms(1) by (simp add: field_simps)
  finally have "w * s \<le> 256 + 1 / 2 ^ 45" .
  moreover have "0 < w * s" using assms by simp
  ultimately have "double (w * s) \<le> double (256 + 1 / 2 ^ 45)"
    by (rule double_mono [rotated])
  then show ?thesis by (simp only: double_256_above)
qed

lemma product_ge_below_256:
  assumes "0 < w"
  shows "256 - 1 / 2 ^ 45 \<le> double (w * double (256 / w))"
proof -
  have q: "0 < 256 / w" using assms by simp
  have "256 / w - 256 / w / 2 ^ 53 \<le> double (256 / w)"
    using double_error [OF q] by linarith
  then have "w * (256 / w - 256 / w / 2 ^ 53) \<le> w * double (256 / w)"
    using assms by (intro mult_left_mono) simp_all
  moreover have "w * (256 / w - 256 / w / 2 ^ 53) = 256 - 1 / 2 ^ 45"
    using assms by (simp add: field_simps)
  ultimately have "256 - 1 / 2 ^ 45 \<le> w * double (256 / w)"
    by simp
  then have "double (256 - 1 / 2 ^ 45) \<le> double (w * double (256 / w))"
    by (intro double_mono) simp_all
  then show ?thesis by (simp only: double_256_below)
qed

lemma double_256_49: "double (256 / 49) = 5882252574524729 / 2 ^ 50"
proof -
  have "double (256 / 49) = of_int (roundTiesToEven (256 / 49 * 2 ^ 50)) / 2 ^ 50"
    by (rule double_eval) simp_all
  also have "roundTiesToEven (256 / 49 * 2 ^ 50) = 5882252574524729"
    by (simp add: roundTiesToEven_def Let_def)
  finally show ?thesis by simp
qed

lemma double_49_scale: "double (49 * (5882252574524729 / 2 ^ 50)) = 256 - 1 / 2 ^ 45"
proof -
  have "double (49 * (5882252574524729 / 2 ^ 50))
      = of_int (roundTiesToEven (49 * (5882252574524729 / 2 ^ 50) * 2 ^ 45)) / 2 ^ 45"
    by (rule double_eval) simp_all
  also have "roundTiesToEven (49 * (5882252574524729 / 2 ^ 50) * 2 ^ 45) = 9007199254740991"
    by (simp add: roundTiesToEven_def Let_def)
  finally show ?thesis by simp
qed

lemma double_64_91: "double (64 / 91) = 6334733541795863 / 2 ^ 53"
proof -
  have "double (64 / 91) = of_int (roundTiesToEven (64 / 91 * 2 ^ 53)) / 2 ^ 53"
    by (rule double_eval) simp_all
  also have "roundTiesToEven (64 / 91 * 2 ^ 53) = 6334733541795863"
    by (simp add: roundTiesToEven_def Let_def)
  finally show ?thesis by simp
qed

lemma double_256_273: "double (256 / 273) = 8446311389061150 / 2 ^ 53"
proof -
  have "double (256 / 273) = of_int (roundTiesToEven (256 / 273 * 2 ^ 53)) / 2 ^ 53"
    by (rule double_eval) simp_all
  also have "roundTiesToEven (256 / 273 * 2 ^ 53) = 8446311389061150"
    by (simp add: roundTiesToEven_def Let_def)
  finally show ?thesis by simp
qed

lemma double_364_scale: "double (364 * (6334733541795863 / 2 ^ 53)) = 256"
proof -
  have "double (364 * (6334733541795863 / 2 ^ 53))
      = of_int (roundTiesToEven (364 * (6334733541795863 / 2 ^ 53) * 2 ^ 44)) / 2 ^ 44"
    by (rule double_eval) simp_all
  also have "roundTiesToEven (364 * (6334733541795863 / 2 ^ 53) * 2 ^ 44) = 2 ^ 52"
    by (simp add: roundTiesToEven_def Let_def)
  finally show ?thesis by simp
qed

lemma double_273_scale:
  "double (273 * (6334733541795863 / 2 ^ 53)) = 6755399441055745 / 2 ^ 45"
proof -
  have "double (273 * (6334733541795863 / 2 ^ 53))
      = of_int (roundTiesToEven (273 * (6334733541795863 / 2 ^ 53) * 2 ^ 45)) / 2 ^ 45"
    by (rule double_eval) simp_all
  also have "roundTiesToEven (273 * (6334733541795863 / 2 ^ 53) * 2 ^ 45) = 6755399441055745"
    by (simp add: roundTiesToEven_def Let_def)
  finally show ?thesis by simp
qed

lemma double_273_rest:
  "double (256 - 6755399441055745 / 2 ^ 45) = 9007199254740988 / 2 ^ 47"
  using double_exact [of 9007199254740988 47] by simp

lemma double_273_half:
  "double (9007199254740988 / 2 ^ 47 / 2) = 9007199254740988 / 2 ^ 48"
  using double_exact [of 9007199254740988 48] by simp

lemma double_0: "double 0 = 0"
  by (simp add: double_def)

subsection \<open>The constructor\<close>

lemma zeroZoomScale_new:
  assumes "width (metaData s) \<noteq> 0" and "height (metaData s) \<noteq> 0"
  shows "zeroZoomScale (new_SchemeView s)
    = min (double (256 / width (metaData s))) (double (256 / height (metaData s)))"
  using assms by (simp add: new_SchemeView_def getSize_def Let_def)

lemma offset_new:
  "offset (new_SchemeView s) =
    (of_int \<lfloor>double (double (256
        - double (width (metaData s) * zeroZoomScale (new_SchemeView s))) / 2)\<rfloor>,
     of_int \<lfloor>double (double (256
        - double (height (metaData s) * zeroZoomScale (new_SchemeView s))) / 2)\<rfloor>)"
  by (simp add: new_SchemeView_def getSize_def Let_def)

lemma zeroZoomScale_pos:
  assumes "0 < width (metaData s)" and "0 < height (metaData s)"
  shows "0 < zeroZoomScale (new_SchemeView s)"
  using assms by (simp add: zeroZoomScale_new double_pos)

lemma view0_base:
  "zeroZoomScale (new_SchemeView scheme0) = 1 / 2 \<and> offset (new_SchemeView scheme0) = (0, 64)"
proof -
  have a: "double (1 / 2) = 1 / 2" using double_exact [of "2 ^ 52" 53] by simp
  have b: "double 1 = 1" using double_exact [of "2 ^ 52" 52] by simp
  have c: "double 256 = 256" using double_exact [of "2 ^ 52" 44] by simp
  have d: "double 128 = 128" using double_exact [of "2 ^ 52" 45] by simp
  have e: "double 64 = 64" using double_exact [of "2 ^ 52" 46] by simp
  show ?thesis
    by (simp add: scheme0_def new_SchemeView_def getSize_def Let_def a b c d e double_0)
qed

lemma view364_base:
  "zeroZoomScale (new_SchemeView scheme364) = 6334733541795863 / 2 ^ 53
   \<and> offset (new_SchemeView scheme364) = (0, 31)"
proof -
  have w: "width (metaData scheme364) = 364" and h: "height (metaData scheme364) = 273"
    by (simp_all add: scheme364_def)
  have z: "zeroZoomScale (new_SchemeView scheme364) = 6334733541795863 / 2 ^ 53"
    using double_64_91 double_256_273 by (simp add: zeroZoomScale_new w h)
  have f: "\<lfloor>9007199254740988 / 2 ^ 48 :: real\<rfloor> = 31"
    by simp
  have "offset (new_SchemeView scheme364) = (0, 31)"
    unfolding offset_new z w h double_364_scale double_273_scale double_273_rest
      double_273_half f
    by (simp add: double_0)
  with z show ?thesis by simp
qed

lemma fromClientPixels_toClientPixels:
  assumes "zeroZoomScale v \<noteq> 0"
  shows "fromClientPixels v (toClientPixels v p z) z = p"
  using assms by (simp add: fromClientPixels_def toClientPixels_def Let_def)

lemma toClientPixels_fromClientPixels:
  assumes "zeroZoomScale v \<noteq> 0"
  shows "toClientPixels v (fromClientPixels v c z) z = c"
  using assms by (simp add: fromClientPixels_def toClientPixels_def Let_def)

text \<open>
  Claim C1.  On the view of a scheme with positive width and height, over exact real
  arithmetic, \<open>fromClientPixels\<close> after \<open>toClientPixels\<close> at the same zoom returns the
  global pixel it started from, and \<open>toClientPixels\<close> after \<open>fromClientPixels\<close> returns
  the client pixel: the two conversions are mutually inverse for every point and every
  zoom.
\<close>

theorem C1_pixel_roundtrip:
  assumes "0 < width (metaData s)" and "0 < height (metaData s)"
  shows "fromClientPixels (new_SchemeView s) (toClientPixels (new_SchemeView s) p z) z = p
       \<and> toClientPixels (new_SchemeView s) (fromClientPixels (new_SchemeView s) c z) z = c"
proof -
  have "zeroZoomScale (new_SchemeView s) \<noteq> 0"
    using zeroZoomScale_pos [OF assms] by simp
  then show ?thesis
    by (simp add: fromClientPixels_toClientPixels toClientPixels_fromClientPixels)
qed

theorem C1_pixel_roundtrip_witness:
  "0 < width (metaData scheme0) \<and> 0 < height (metaData scheme0)
   \<and> toClientPixels (new_SchemeView scheme0) (100, 50) 2 = (50, -39)
   \<and> fromClientPixels (new_SchemeView scheme0) (50, -39) 2 = (100, 50)"
proof -
  have "0 < width (metaData scheme0) \<and> 0 < height (metaData scheme0)"
    by (simp add: scheme0_def)
  with C1_pixel_roundtrip [of scheme0 "(100, 50)" 2 "(50, -39)"]
  show ?thesis
    by (simp add: view0_base [THEN conjunct1] view0_base [THEN conjunct2]
        toClientPixels_def fromClientPixels_def Let_def)
qed

text \<open>
  Claim C2, as stated, fails: for a scheme of 49 by 49 pixels the base scale is the
  double nearest to \<open>256 / 49\<close>, and the product of 49 and that scale is the double just
  below 256 on both axes, so equality holds on neither.
\<close>

theorem C2_base_scale_counterexample:
  "zeroZoomScale (new_SchemeView scheme49) = 5882252574524729 / 2 ^ 50
   \<and> double (width (metaData scheme49) * zeroZoomScale (new_SchemeView scheme49))
       = 256 - 1 / 2 ^ 45
   \<and> double (height (metaData scheme49) * zeroZoomScale (new_SchemeView scheme49))
       = 256 - 1 / 2 ^ 45
   \<and> double (width (metaData scheme49) * zeroZoomScale (new_SchemeView scheme49)) \<noteq> 256
   \<and> double (height (metaData scheme49) * zeroZoomScale (new_SchemeView scheme49)) \<noteq> 256"
proof -
  have w: "width (metaData scheme49) = 49" and h: "height (metaData scheme49) = 49"
    by (simp_all add: scheme49_def)
  have z: "zeroZoomScale (new_SchemeView scheme49) = 5882252574524729 / 2 ^ 50"
    using double_256_49 by (simp add: zeroZoomScale_new w h)
  have p: "double (49 * (5882252574524729 / 2 ^ 50)) \<noteq> 256"
    unfolding double_49_scale by simp
  show ?thesis
    unfolding z w h using double_49_scale p by blast
qed

text \<open>
  Claim C2, amended.  For a scheme whose width and height lie between \<open>2 ^ -500\<close> and
  \<open>2 ^ 500\<close> (so that no intermediate result overflows or is subnormal) the constructor
  sets the base scale to \<open>min (256 / width) (256 / height)\<close> and the base offset to
  \<open>floor ((256 - size * scale) / 2)\<close> on each axis, every operation rounded to the nearest
  double.  The scaled width and the scaled height, as the code computes them, are both at
  most 256, and one of them is 256 or the double just below it, \<open>256 - 2 ^ -45\<close>.  Over
  exact arithmetic the same formulas give products of at most 256 with equality on one
  axis.
\<close>

theorem C2_base_scale:
  assumes "1 / 2 ^ 500 \<le> width (metaData s)" and "width (metaData s) \<le> 2 ^ 500"
    and "1 / 2 ^ 500 \<le> height (metaData s)" and "height (metaData s) \<le> 2 ^ 500"
  shows "zeroZoomScale (new_SchemeView s)
          = min (double (256 / width (metaData s))) (double (256 / height (metaData s)))
       \<and> offset (new_SchemeView s) =
           (of_int \<lfloor>double (double (256
               - double (width (metaData s) * zeroZoomScale (new_SchemeView s))) / 2)\<rfloor>,
            of_int \<lfloor>double (double (256
               - double (height (metaData s) * zeroZoomScale (new_SchemeView s))) / 2)\<rfloor>)
       \<and> double (width (metaData s) * zeroZoomScale (new_SchemeView s)) \<le> 256
       \<and> double (height (metaData s) * zeroZoomScale (new_SchemeView s)) \<le> 256
       \<and> (256 - 1 / 2 ^ 45 \<le> double (width (metaData s) * zeroZoomScale (new_SchemeView s))
          \<or> 256 - 1 / 2 ^ 45 \<le> double (height (metaData s) * zeroZoomScale (new_SchemeView s)))
       \<and> width (metaData s) * min (256 / width (metaData s)) (256 / height (metaData s)) \<le> 256
       \<and> height (metaData s) * min (256 / width (metaData s)) (256 / height (metaData s)) \<le> 256
       \<and> (width (metaData s) * min (256 / width (metaData s)) (256 / height (metaData s)) = 256
          \<or> height (metaData s) * min (256 / width (metaData s)) (256 / height (metaData s))
              = 256)"
proof -
  let ?w = "width (metaData s)" and ?h = "height (metaData s)"
  let ?z = "zeroZoomScale (new_SchemeView s)"
  let ?x = "min (256 / ?w) (256 / ?h)"
  have "(0::real) < 1 / 2 ^ 500"
    by simp
  with assms(1,3) have pw: "0 < ?w" and ph: "0 < ?h"
    by linarith+
  have z: "?z = min (double (256 / ?w)) (double (256 / ?h))"
    using pw ph by (intro zeroZoomScale_new) simp_all
  have zp: "0 < ?z"
    using pw ph by (rule zeroZoomScale_pos)
  have w: "double (?w * ?z) \<le> 256"
    using pw zp by (rule product_le_256) (simp add: z)
  have h: "double (?h * ?z) \<le> 256"
    using ph zp by (rule product_le_256) (simp add: z)
  have e: "256 - 1 / 2 ^ 45 \<le> double (?w * ?z) \<or> 256 - 1 / 2 ^ 45 \<le> double (?h * ?z)"
  proof (cases "double (256 / ?w) \<le> double (256 / ?h)")
    case True
    then have "?z = double (256 / ?w)" unfolding z by simp
    then show ?thesis using product_ge_below_256 [OF pw] by simp
  next
    case False
    then have "?z = double (256 / ?h)" unfolding z by simp
    then show ?thesis using product_ge_below_256 [OF ph] by simp
  qed
  have xw: "?w * ?x \<le> 256"
  proof -
    have "?w * ?x \<le> ?w * (256 / ?w)"
      using pw by (intro mult_left_mono) auto
    then show ?thesis using pw by simp
  qed
  have xh: "?h * ?x \<le> 256"
  proof -
    have "?h * ?x \<le> ?h * (256 / ?h)"
      using ph by (intro mult_left_mono) auto
    then show ?thesis using ph by simp
  qed
  have xe: "?w * ?x = 256 \<or> ?h * ?x = 256"
  proof (cases "256 / ?w \<le> 256 / ?h")
    case True
    then have "?x = 256 / ?w" by simp
    then show ?thesis using pw by simp
  next
    case False
    then have "?x = 256 / ?h" by simp
    then show ?thesis using ph by simp
  qed
  from z offset_new w h e xw xh xe show ?thesis by blast
qed

theorem C2_base_scale_witness:
  "1 / 2 ^ 500 \<le> width (metaData scheme364) \<and> width (metaData scheme364) \<le> 2 ^ 500
   \<and> 1 / 2 ^ 500 \<le> height (metaData scheme364) \<and> height (metaData scheme364) \<le> 2 ^ 500
   \<and> zeroZoomScale (new_SchemeView scheme364) = 6334733541795863 / 2 ^ 53
   \<and> offset (new_SchemeView scheme364) = (0, 31)
   \<and> double (width (metaData scheme364) * zeroZoomScale (new_SchemeView scheme364)) = 256
   \<and> double (height (metaData scheme364) * zeroZoomScale (new_SchemeView scheme364))
       = 6755399441055745 / 2 ^ 45
   \<and> double (height (metaData scheme364) * zeroZoomScale (new_SchemeView scheme364)) \<le> 256
   \<and> width (metaData scheme364)
       * min (256 / width (metaData scheme364)) (256 / height (metaData scheme364)) = 256
   \<and> height (metaData scheme364)
       * min (256 / width (metaData scheme364)) (256 / height (metaData scheme364)) = 192"
proof -
  have w: "width (metaData scheme364) = 364" and h: "height (metaData scheme364) = 273"
    by (simp_all add: scheme364_def)
  have r: "1 / 2 ^ 500 \<le> width (metaData scheme364)" "width (metaData scheme364) \<le> 2 ^ 500"
    "1 / 2 ^ 500 \<le> height (metaData scheme364)" "height (metaData scheme364) \<le> 2 ^ 500"
    unfolding w h by simp_all
  have z: "zeroZoomScale (new_SchemeView scheme364) = 6334733541795863 / 2 ^ 53"
    and off: "offset (new_SchemeView scheme364) = (0, 31)"
    using view364_base by simp_all
  have pw: "double (width (metaData scheme364) * zeroZoomScale (new_SchemeView scheme364)) = 256"
    unfolding w z by (rule double_364_scale)
  have ph: "double (height (metaData scheme364) * zeroZoomScale (new_SchemeView scheme364))
      = 6755399441055745 / 2 ^ 45"
    unfolding h z by (rule double_273_scale)
  have le: "double (height (metaData scheme364) * zeroZoomScale (new_SchemeView scheme364))
      \<le> 256"
    using C2_base_scale [OF r] by blast
  have xw: "width (metaData scheme364)
      * min (256 / width (metaData scheme364)) (256 / height (metaData scheme364)) = 256"
    unfolding w h by simp
  have xh: "height (metaData scheme364)
      * min (256 / width (metaData scheme364)) (256 / height (metaData scheme364)) = 192"
    unfolding w h by simp
  show ?thesis
    by (intro conjI r z off pw ph le xw xh)
qed

lemma updatePosition_base:
  "zeroZoomScale (updatePosition v cc ms) = zeroZoomScale v
   \<and> offset (updatePosition v cc ms) = offset v"
  by (simp add: updatePosition_def Let_def)

lemma fold_updatePosition_base:
  "zeroZoomScale (fold (\<lambda>(cc, ms) u. updatePosition u cc ms) calls v) = zeroZoomScale v
   \<and> offset (fold (\<lambda>(cc, ms) u. updatePosition u cc ms) calls v) = offset v"
  by (induction calls arbitrary: v) (auto simp: updatePosition_base)

lemma conversions_depend_on_base:
  assumes "zeroZoomScale u = zeroZoomScale v" and "offset u = offset v"
  shows "toClientPixels u p z = toClientPixels v p z
       \<and> fromClientPixels u p z = fromClientPixels v p z"
  using assms by (simp add: toClientPixels_def fromClientPixels_def)

text \<open>
  Claim C10.  Whatever calls of \<open>updatePosition\<close> (each with its client centre and map
  scale) have been made on a view, its base scale and base offset are those it had
  before, so \<open>toClientPixels\<close> and \<open>fromClientPixels\<close> give at every point and zoom the
  results they give on the view as constructed.
\<close>

theorem C10_updatePosition_frame:
  "zeroZoomScale (fold (\<lambda>(cc, ms) u. updatePosition u cc ms) calls (new_SchemeView s))
     = zeroZoomScale (new_SchemeView s)
   \<and> offset (fold (\<lambda>(cc, ms) u. updatePosition u cc ms) calls (new_SchemeView s))
     = offset (new_SchemeView s)
   \<and> toClientPixels (fold (\<lambda>(cc, ms) u. updatePosition u cc ms) calls (new_SchemeView s)) p z
     = toClientPixels (new_SchemeView s) p z
   \<and> fromClientPixels (fold (\<lambda>(cc, ms) u. updatePosition u cc ms) calls (new_SchemeView s)) p z
     = fromClientPixels (new_SchemeView s) p z"
  using fold_updatePosition_base [of calls "new_SchemeView s"]
    conversions_depend_on_base [of "fold (\<lambda>(cc, ms) u. updatePosition u cc ms) calls (new_SchemeView s)"
      "new_SchemeView s" p z]
  by simp

section \<open>Stations and the station collection\<close>

lemma Station_select_ok:
  "Station_select st v evs = (None, r) \<Longrightarrow> fst r = st\<lparr>selected := True\<rparr>"
  by (auto simp add: Station_select_def Let_def split: option.splits sum.splits prod.splits if_splits)

lemma Station_deselect_ok:
  "Station_deselect st v evs = (None, r) \<Longrightarrow> fst r = st\<lparr>selected := False\<rparr>"
  by (auto simp add: Station_deselect_def Let_def split: option.splits sum.splits prod.splits if_splits)



lemma fold_add_stations:
  "fold (\<lambda>(k, m) c. c\<lparr>stations := stations c @ [(k, new_Station m)]\<rparr>) md c
    = c\<lparr>stations := stations c @ map (\<lambda>(k, m). (k, new_Station m)) md\<rparr>"
  by (induction md arbitrary: c) (auto simp: case_prod_beta)

lemma stations_new:
  "stations (new_StationCollection v) = map (\<lambda>(k, m). (k, new_Station m)) (getStations (scheme v))"
  by (simp add: new_StationCollection_def fold_add_stations)

lemma keys_new:
  "map fst (stations (new_StationCollection v)) = map fst (getStations (scheme v))"
  by (simp add: stations_new case_prod_beta comp_def)

lemma fold_push:
  "fold (\<lambda>(k, st) cs. if selected st then cs @ [code st] else cs) xs acc
    = acc @ map (code \<circ> snd) (filter (selected \<circ> snd) xs)"
  by (induction xs arbitrary: acc) (auto simp: case_prod_beta)

lemma getSelection_filter:
  "getSelection c = map (code \<circ> snd) (filter (selected \<circ> snd) (stations c))"
  by (simp add: getSelection_def fold_push)

lemma map_of_store:
  "map_of xs k = Some s \<Longrightarrow> map_of (store k st xs) = (map_of xs)(k \<mapsto> st)"
  by (induction xs) (auto split: if_splits)

lemma keys_store: "map fst (store k st xs) = map fst xs"
  by (induction xs) auto

lemma store_distinct:
  "distinct (map fst xs) \<Longrightarrow> map_of xs k = Some s \<Longrightarrow>
   store k (f s) xs = map (\<lambda>(j, t). (j, if j = k then f t else t)) xs"
proof (induction xs)
  case Nil
  then show ?case by simp
next
  case (Cons x xs)
  obtain j t where x: "x = (j, t)" by (cases x)
  show ?case
  proof (cases "j = k")
    case True
    with Cons.prems x have "t = s" and "k \<notin> fst ` set xs" by auto
    then have "map (\<lambda>(j, t). (j, if j = k then f t else t)) xs = xs"
      by (intro map_idI) (auto simp: case_prod_beta rev_image_eqI)
    with True x \<open>t = s\<close> show ?thesis by simp
  next
    case False
    with Cons x show ?thesis by simp
  qed
qed

lemma getByCode_put:
  "getByCode c k = Some s \<Longrightarrow> getByCode (put c k r) = (getByCode c)(k \<mapsto> fst r)"
  by (auto simp: getByCode_def put_def map_of_store)

lemma keys_put: "map fst (stations (put c k r)) = map fst (stations c)"
  by (simp add: put_def keys_store)

lemma select_forEach_getByCode:
  "select_forEach c ks = (None, c') \<Longrightarrow>
   getByCode c' j = map_option (\<lambda>st. if j \<in> set ks then st\<lparr>selected := True\<rparr> else st) (getByCode c j)"
proof (induction ks arbitrary: c)
  case Nil
  then show ?case by (simp add: option.map_ident)
next
  case (Cons k ks)
  from Cons.prems obtain st r where
    g: "getByCode c k = Some st" and
    s: "Station_select st (view c) (events c) = (None, r)" and
    rest: "select_forEach (put c k r) ks = (None, c')"
    by (auto split: option.splits prod.splits)
  have r: "fst r = st\<lparr>selected := True\<rparr>" using s by (rule Station_select_ok)
  have "getByCode c' j = map_option (\<lambda>st. if j \<in> set ks then st\<lparr>selected := True\<rparr> else st) (getByCode (put c k r) j)"
    using rest by (rule Cons.IH)
  then show ?case using g r by (auto simp: getByCode_put)
qed

lemma deselect_forEach_getByCode:
  "deselect_forEach c ks = (None, c') \<Longrightarrow>
   getByCode c' j = map_option (\<lambda>st. if j \<in> set ks then st\<lparr>selected := False\<rparr> else st) (getByCode c j)"
proof (induction ks arbitrary: c)
  case Nil
  then show ?case by (simp add: option.map_ident)
next
  case (Cons k ks)
  from Cons.prems obtain st r where
    g: "getByCode c k = Some st" and
    s: "Station_deselect st (view c) (events c) = (None, r)" and
    rest: "deselect_forEach (put c k r) ks = (None, c')"
    by (auto split: option.splits prod.splits)
  have r: "fst r = st\<lparr>selected := False\<rparr>" using s by (rule Station_deselect_ok)
  have "getByCode c' j = map_option (\<lambda>st. if j \<in> set ks then st\<lparr>selected := False\<rparr> else st) (getByCode (put c k r) j)"
    using rest by (rule Cons.IH)
  then show ?case using g r by (auto simp: getByCode_put)
qed

lemma select_forEach_unknown:
  "k \<in> set ks \<Longrightarrow> getByCode c k = None \<Longrightarrow> fst (select_forEach c ks) \<noteq> None"
proof (induction ks arbitrary: c)
  case Nil
  then show ?case by simp
next
  case (Cons j ks)
  show ?case
  proof (cases "getByCode c j")
    case None
    then show ?thesis by simp
  next
    case (Some st)
    then have jk: "j \<noteq> k" using Cons.prems by auto
    obtain e r where s: "Station_select st (view c) (events c) = (e, r)" by (cases "Station_select st (view c) (events c)")
    show ?thesis
    proof (cases e)
      case None
      have "getByCode (put c j r) k = None" using Some jk Cons.prems by (simp add: getByCode_put)
      moreover have "k \<in> set ks" using jk Cons.prems by auto
      ultimately have "fst (select_forEach (put c j r) ks) \<noteq> None" by (rule Cons.IH[rotated])
      then show ?thesis using Some s None by simp
    next
      case (Some a)
      then show ?thesis using \<open>getByCode c j = Some st\<close> s by simp
    qed
  qed
qed

lemma deselect_forEach_unknown:
  "k \<in> set ks \<Longrightarrow> getByCode c k = None \<Longrightarrow> fst (deselect_forEach c ks) \<noteq> None"
proof (induction ks arbitrary: c)
  case Nil
  then show ?case by simp
next
  case (Cons j ks)
  show ?case
  proof (cases "getByCode c j")
    case None
    then show ?thesis by simp
  next
    case (Some st)
    then have jk: "j \<noteq> k" using Cons.prems by auto
    obtain e r where s: "Station_deselect st (view c) (events c) = (e, r)"
      by (cases "Station_deselect st (view c) (events c)")
    show ?thesis
    proof (cases e)
      case None
      have "getByCode (put c j r) k = None" using Some jk Cons.prems by (simp add: getByCode_put)
      moreover have "k \<in> set ks" using jk Cons.prems by auto
      ultimately have "fst (deselect_forEach (put c j r) ks) \<noteq> None" by (rule Cons.IH[rotated])
      then show ?thesis using Some s None by simp
    next
      case (Some a)
      then show ?thesis using \<open>getByCode c j = Some st\<close> s by simp
    qed
  qed
qed

lemma stations_put_distinct:
  assumes "distinct (map fst (stations c))" and "getByCode c k = Some st"
  shows "stations (put c k (f st, r)) = map (\<lambda>(j, t). (j, if j = k then f t else t)) (stations c)"
  using assms by (simp add: put_def getByCode_def store_distinct)

lemma select_forEach_stations:
  "distinct (map fst (stations c)) \<Longrightarrow> select_forEach c ks = (None, c') \<Longrightarrow>
   stations c' = map (\<lambda>(j, t). (j, if j \<in> set ks then t\<lparr>selected := True\<rparr> else t)) (stations c)"
proof (induction ks arbitrary: c)
  case Nil
  then show ?case by (simp add: case_prod_beta)
next
  case (Cons k ks)
  from Cons.prems(2) obtain st r where
    g: "getByCode c k = Some st" and
    s: "Station_select st (view c) (events c) = (None, r)" and
    rest: "select_forEach (put c k r) ks = (None, c')"
    by (auto split: option.splits prod.splits)
  have r: "r = (st\<lparr>selected := True\<rparr>, snd r)"
    using Station_select_ok [OF s] by (cases r) simp
  have p: "stations (put c k r)
      = map (\<lambda>(j, t). (j, if j = k then t\<lparr>selected := True\<rparr> else t)) (stations c)"
    using stations_put_distinct [OF Cons.prems(1) g, of "\<lambda>t. t\<lparr>selected := True\<rparr>" "snd r"] r
    by simp
  have d: "distinct (map fst (stations (put c k r)))"
    using Cons.prems(1) by (simp add: keys_put)
  have "stations c' = map (\<lambda>(j, t). (j, if j \<in> set ks then t\<lparr>selected := True\<rparr> else t))
      (stations (put c k r))"
    using d rest by (rule Cons.IH)
  then show ?case unfolding p by (auto simp: case_prod_beta)
qed






lemma getSelection_select_new:
  assumes "distinct (map fst (getStations (scheme v)))"
    and "select (new_StationCollection v) cs = (None, c')"
  shows "getSelection c'
    = map (labelId \<circ> snd) (filter (\<lambda>(k, m). k \<in> set (concat_codes cs)) (getStations (scheme v)))"
proof -
  have "distinct (map fst (stations (new_StationCollection v)))"
    using assms(1) by (simp add: keys_new)
  then have "stations c' = map (\<lambda>(j, t). (j, if j \<in> set (concat_codes cs) then t\<lparr>selected := True\<rparr> else t))
      (stations (new_StationCollection v))"
    using assms(2) unfolding select_def by (rule select_forEach_stations)
  then show ?thesis
    by (simp add: getSelection_filter stations_new filter_map comp_def split_def new_Station_def
        if_distrib [of code] if_distrib [of selected])
qed

lemma Station_select_transition:
  "Station_select st v evs
    = transition True (CssText ''#bbb'') (CssNum 1) HighlightLayerStations HighlightLayerLabels
        Select st v evs"
  by (simp add: Station_select_def transition_def)

lemma Station_deselect_transition:
  "Station_deselect st v evs
    = transition False (CssText '''') (CssText '''') SchemeLayerStations SchemeLayerLabels
        Deselect st v evs"
  by (simp add: Station_deselect_def transition_def)

lemma present_appendChild: "present (appendChild d p c) i = present d i"
  by (simp add: present_def appendChild_def split: option.splits)

lemma has_rect_appendChild: "has_rect (appendChild d p c) i = has_rect d i"
  by (simp add: has_rect_def appendChild_def split: option.splits)

lemma present_fold_appendChild:
  "present (fold (\<lambda>i d. appendChild d p (f i)) xs d) i = present d i"
  by (induction xs arbitrary: d) (simp_all add: present_appendChild)

lemma has_rect_fold_appendChild:
  "has_rect (fold (\<lambda>i d. appendChild d p (f i)) xs d) i = has_rect d i"
  by (induction xs arbitrary: d) (simp_all add: has_rect_appendChild)

lemma forEach_appendChild_Some:
  "forEach_appendChild (Some p) pid (map Some cs) d = (None, fold (\<lambda>c d. appendChild d p c) cs d)"
  by (induction cs arbitrary: d) simp_all

lemma getElementById_present: "present d i \<Longrightarrow> getElementById d i = Some i"
  by (simp add: present_def getElementById_def split: option.splits)

lemma present_upd: "d k = Some e \<Longrightarrow> present (d(k \<mapsto> e')) i = present d i"
  by (simp add: present_def)

lemma has_rect_upd:
  "d k = Some e \<Longrightarrow> rect e = Some r \<Longrightarrow> has_rect (d(k \<mapsto> e\<lparr>rect := Some r'\<rparr>)) i = has_rect d i"
  by (simp add: has_rect_def)

lemma present_redraw: "present (redraw str opa sl ll v st) i = present (schemeNode v) i"
  by (simp add: redraw_def present_appendChild present_fold_appendChild present_upd
      split: option.splits)

lemma has_rect_redraw: "has_rect (redraw str opa sl ll v st) i = has_rect (schemeNode v) i"
  by (simp add: redraw_def has_rect_appendChild has_rect_fold_appendChild has_rect_upd
      split: option.splits)

lemma drawable_redraw:
  "drawable (v\<lparr>schemeNode := redraw str opa sl ll v st\<rparr>) s = drawable v s"
  by (simp add: drawable_def present_redraw has_rect_redraw list_all_iff cong: option.case_cong)

lemma forEach_appendChild_comp:
  "forEach_appendChild (Some p) pid (map (Some \<circ> f) xs) d
    = (None, fold (\<lambda>i d. appendChild d p (f i)) xs d)"
  by (induction xs arbitrary: d) simp_all

lemma fold_appendChild_map:
  "fold (\<lambda>c d. appendChild d p c) (map f xs) d = fold (\<lambda>i d. appendChild d p (f i)) xs d"
  by (simp add: fold_map comp_def)

lemma transition_drawable:
  assumes "drawable v st" and "sl \<in> set layers" and "ll \<in> set layers"
  shows "transition target str opa sl ll ch st v evs
    = (if selected st = target then (None, st, v, evs)
       else (None, st\<lparr>selected := target\<rparr>, v\<lparr>schemeNode := redraw str opa sl ll v st\<rparr>,
             evs @ [SelectionChange ch (code st)]))"
proof (cases "selected st = target")
  case True
  then show ?thesis by (simp add: transition_def)
next
  case False
  let ?d = "schemeNode v" and ?c = "code st"
  from assms(1) obtain e r ids where
    e: "?d (Label ?c) = Some e" and r: "rect e = Some r" and
    ids: "getLabel (scheme v) ?c = Some ids" and
    glyphs: "\<forall>i \<in> set ids. present ?d (StationGlyph i)" and
    lay: "\<forall>q \<in> set layers. present ?d q"
    by (auto simp: drawable_def has_rect_def list_all_iff split: option.splits)
  let ?e' = "e\<lparr>rect := Some (r\<lparr>stroke := str, rect_opacity := opa\<rparr>)\<rparr>"
  let ?d1 = "?d(Label ?c \<mapsto> ?e')"
  let ?v1 = "v\<lparr>schemeNode := ?d1\<rparr>"
  let ?st1 = "st\<lparr>selected := target\<rparr>"
  let ?d2 = "fold (\<lambda>i d. appendChild d sl (StationGlyph i)) ids ?d1"
  let ?v2 = "?v1\<lparr>schemeNode := ?d2\<rparr>"
  let ?d3 = "appendChild ?d2 ll (Label ?c)"
  have p1: "present ?d1 i = present ?d i" for i
    using e by (rule present_upd)
  have p2: "present ?d2 i = present ?d i" for i
    by (simp add: present_fold_appendChild p1)
  have nodes: "getStationNodes ?st1 ?v1 = Inr (map Some (map StationGlyph ids))"
    using ids glyphs by (simp add: getStationNodes_def getElementById_present p1)
  have a1: "appendTo ?v1 sl (map Some (map StationGlyph ids)) = (None, ?v2)"
    using lay assms(2)
    by (simp add: appendTo_def Let_def getElementById_present p1 forEach_appendChild_comp)
  have "present ?d (Label ?c)"
    using e by (simp add: present_def)
  then have "present ?d2 (Label ?c)"
    by (simp only: p2)
  then have l2: "getLabelNode ?st1 ?v2 = Some (Label ?c)"
    by (simp add: getLabelNode_def getElementById_present)
  have a2: "appendTo ?v2 ll [Some (Label ?c)] = (None, ?v2\<lparr>schemeNode := ?d3\<rparr>)"
    using lay assms(3) forEach_appendChild_Some [of ll ll "[Label ?c]" ?d2]
    by (simp add: appendTo_def Let_def getElementById_present p2)
  have d3: "redraw str opa sl ll v st = ?d3"
    using e r ids by (simp add: redraw_def)
  show ?thesis
    using False e r nodes a1 l2 a2 by (simp add: transition_def Let_def d3)
qed

lemma children_of_appendChild:
  "children_of (appendChild d p c) q
    = (if present d q \<and> q = p then removeAll c (children_of d q) @ [c]
       else removeAll c (children_of d q))"
  by (auto simp: children_of_def appendChild_def present_def split: option.splits)

lemma distinct_layers: "distinct layers"
  by (simp add: layers_def)

lemma layers_of_appendChild:
  assumes "p \<in> set layers" and "present d p"
  shows "layers_of (appendChild d p c) x = (if x = c then [p] else layers_of d x)"
proof (cases "x = c")
  case True
  have "filter (\<lambda>q. c \<in> set (children_of (appendChild d p c) q)) layers
      = filter (\<lambda>q. q = p) layers"
    using assms(2) by (intro filter_cong) (auto simp: children_of_appendChild)
  also have "\<dots> = [p]"
    using assms(1) by (auto simp: layers_def)
  finally show ?thesis using True by (simp add: layers_of_def)
next
  case False
  then have "filter (\<lambda>q. x \<in> set (children_of (appendChild d p c) q)) layers
      = filter (\<lambda>q. x \<in> set (children_of d q)) layers"
    by (intro filter_cong) (auto simp: children_of_appendChild)
  then show ?thesis using False by (simp add: layers_of_def)
qed

lemma layers_of_fold_appendChild:
  assumes "p \<in> set layers" and "present d p"
  shows "layers_of (fold (\<lambda>i d. appendChild d p (f i)) xs d) x
    = (if x \<in> f ` set xs then [p] else layers_of d x)"
  using assms(2)
proof (induction xs arbitrary: d)
  case Nil
  then show ?case by simp
next
  case (Cons a xs)
  have "present (appendChild d p (f a)) p"
    using Cons.prems by (simp add: present_appendChild)
  from Cons.IH [OF this] show ?case
    using assms(1) Cons.prems by (auto simp: layers_of_appendChild)
qed

lemma children_of_upd:
  "d k = Some e \<Longrightarrow> children_of (d(k \<mapsto> e\<lparr>rect := r'\<rparr>)) q = children_of d q"
  by (simp add: children_of_def)

lemma layers_of_upd:
  "d k = Some e \<Longrightarrow> layers_of (d(k \<mapsto> e\<lparr>rect := r'\<rparr>)) x = layers_of d x"
  by (simp add: layers_of_def children_of_upd)

lemma rect_appendChild: "map_option rect (appendChild d p c i) = map_option rect (d i)"
  by (simp add: appendChild_def split: option.splits)

lemma rect_fold_appendChild:
  "map_option rect (fold (\<lambda>i d. appendChild d p (f i)) xs d i) = map_option rect (d i)"
  by (induction xs arbitrary: d) (simp_all add: rect_appendChild)

lemma redraw_facts:
  assumes "drawable v st" and "sl \<in> set layers" and "ll \<in> set layers"
    and "getLabel (scheme v) (code st) = Some ids"
  shows "map_option rect (redraw str opa sl ll v st (Label c))
      = (if c = code st then Some (Some \<lparr> stroke = str, rect_opacity = opa \<rparr>)
         else map_option rect (schemeNode v (Label c)))"
    and "layers_of (redraw str opa sl ll v st) (Label c)
      = (if c = code st then [ll] else layers_of (schemeNode v) (Label c))"
    and "layers_of (redraw str opa sl ll v st) (StationGlyph i)
      = (if i \<in> set ids then [sl] else layers_of (schemeNode v) (StationGlyph i))"
proof -
  let ?d = "schemeNode v"
  from assms(1) obtain e r where
    e: "?d (Label (code st)) = Some e" and r: "rect e = Some r" and
    lay: "\<forall>q \<in> set layers. present ?d q"
    by (auto simp: drawable_def has_rect_def list_all_iff split: option.splits)
  let ?e' = "e\<lparr>rect := Some (r\<lparr>stroke := str, rect_opacity := opa\<rparr>)\<rparr>"
  let ?d1 = "?d(Label (code st) \<mapsto> ?e')"
  let ?d2 = "fold (\<lambda>i d. appendChild d sl (StationGlyph i)) ids ?d1"
  have d3: "redraw str opa sl ll v st = appendChild ?d2 ll (Label (code st))"
    using e r assms(4) by (simp add: redraw_def)
  have p1: "present ?d1 q = present ?d q" for q
    using e by (rule present_upd)
  have psl: "present ?d1 sl" using lay assms(2) by (simp add: p1)
  have pll: "present ?d2 ll" using lay assms(3) by (simp add: present_fold_appendChild p1)
  show "map_option rect (redraw str opa sl ll v st (Label c))
      = (if c = code st then Some (Some \<lparr> stroke = str, rect_opacity = opa \<rparr>)
         else map_option rect (schemeNode v (Label c)))"
    unfolding d3 by (simp add: rect_appendChild rect_fold_appendChild)
  show "layers_of (redraw str opa sl ll v st) (Label c)
      = (if c = code st then [ll] else layers_of (schemeNode v) (Label c))"
    unfolding d3
    using e by (auto simp: layers_of_appendChild [OF assms(3) pll]
        layers_of_fold_appendChild [OF assms(2) psl] layers_of_upd)
  show "layers_of (redraw str opa sl ll v st) (StationGlyph i)
      = (if i \<in> set ids then [sl] else layers_of (schemeNode v) (StationGlyph i))"
    unfolding d3
    using e by (auto simp: layers_of_appendChild [OF assms(3) pll]
        layers_of_fold_appendChild [OF assms(2) psl] layers_of_upd)
qed

lemma drawn_as_redraw_self:
  assumes "drawable v st" and "sl \<in> set layers" and "ll \<in> set layers"
  shows "drawn_as str opa sl ll (v\<lparr>schemeNode := redraw str opa sl ll v st\<rparr>) st"
proof -
  from assms(1) obtain ids where ids: "getLabel (scheme v) (code st) = Some ids"
    by (auto simp: drawable_def split: option.splits)
  have "map_option rect (redraw str opa sl ll v st (Label (code st)))
      = Some (Some \<lparr> stroke = str, rect_opacity = opa \<rparr>)"
    using redraw_facts(1) [OF assms ids, of str opa "code st"] by simp
  moreover have "layers_of (redraw str opa sl ll v st) (Label (code st)) = [ll]"
    using redraw_facts(2) [OF assms ids, of str opa "code st"] by simp
  moreover have "\<forall>i \<in> set ids. layers_of (redraw str opa sl ll v st) (StationGlyph i) = [sl]"
    using redraw_facts(3) [OF assms ids, of str opa] by simp
  ultimately show ?thesis
    using ids by (simp add: drawn_as_def list_all_iff)
qed

lemma drawn_as_redraw_other:
  assumes "drawable v st" and "sl \<in> set layers" and "ll \<in> set layers"
    and "drawn_as str opa sl ll v s"
  shows "drawn_as str opa sl ll (v\<lparr>schemeNode := redraw str opa sl ll v st\<rparr>) s"
proof -
  from assms(1) obtain ids where ids: "getLabel (scheme v) (code st) = Some ids"
    by (auto simp: drawable_def split: option.splits)
  from assms(4) obtain js where js: "getLabel (scheme v) (code s) = Some js"
    and a: "map_option rect (schemeNode v (Label (code s)))
        = Some (Some \<lparr> stroke = str, rect_opacity = opa \<rparr>)"
    and b: "layers_of (schemeNode v) (Label (code s)) = [ll]"
    and c: "\<forall>j \<in> set js. layers_of (schemeNode v) (StationGlyph j) = [sl]"
    by (auto simp: drawn_as_def list_all_iff split: option.splits)
  have "map_option rect (redraw str opa sl ll v st (Label (code s)))
      = Some (Some \<lparr> stroke = str, rect_opacity = opa \<rparr>)"
    using redraw_facts(1) [OF assms(1-3) ids, of str opa "code s"] a by simp
  moreover have "layers_of (redraw str opa sl ll v st) (Label (code s)) = [ll]"
    using redraw_facts(2) [OF assms(1-3) ids, of str opa "code s"] b by simp
  moreover have "\<forall>j \<in> set js. layers_of (redraw str opa sl ll v st) (StationGlyph j) = [sl]"
    using redraw_facts(3) [OF assms(1-3) ids, of str opa] c by simp
  ultimately show ?thesis
    using js by (simp add: drawn_as_def list_all_iff)
qed

lemma select_forEach_station: "select_forEach c ks = forEach_station Station_select c ks"
  by (induction ks arbitrary: c) (simp_all split: option.splits prod.splits)

lemma deselect_forEach_station: "deselect_forEach c ks = forEach_station Station_deselect c ks"
  by (induction ks arbitrary: c) (simp_all split: option.splits prod.splits)

lemma set_store: "set (store k st xs) \<subseteq> insert (k, st) (set xs)"
  by (induction xs) (auto split: if_splits)

lemma transition_step:
  assumes "all_drawable c" and "getByCode c k = Some st"
    and "sl \<in> set layers" and "ll \<in> set layers"
  shows "transition target str opa sl ll ch st (view c) (events c)
      = (None, if selected st = target then (st, view c, events c)
               else (st\<lparr>selected := target\<rparr>,
                     (view c)\<lparr>schemeNode := redraw str opa sl ll (view c) st\<rparr>,
                     events c @ [SelectionChange ch (code st)]))"
    and "all_drawable (put c k (snd (transition target str opa sl ll ch st (view c) (events c))))"
proof -
  have m: "(k, st) \<in> set (stations c)"
    using assms(2) by (simp add: getByCode_def map_of_SomeD)
  then have d: "drawable (view c) st"
    using assms(1) by (auto simp: all_drawable_def list_all_iff)
  show t: "transition target str opa sl ll ch st (view c) (events c)
      = (None, if selected st = target then (st, view c, events c)
               else (st\<lparr>selected := target\<rparr>,
                     (view c)\<lparr>schemeNode := redraw str opa sl ll (view c) st\<rparr>,
                     events c @ [SelectionChange ch (code st)]))"
    using transition_drawable [OF d assms(3) assms(4)] by simp
  let ?r = "snd (transition target str opa sl ll ch st (view c) (events c))"
  have v: "\<And>s. drawable (fst (snd ?r)) s = drawable (view c) s"
    unfolding t by (simp add: drawable_redraw)
  have s: "drawable (view c) (fst ?r)"
    unfolding t using d by (simp add: drawable_def)
  have "\<forall>(j, x) \<in> set (store k (fst ?r) (stations c)). drawable (view c) x"
    using set_store [of k "fst ?r" "stations c"] s assms(1)
    by (auto simp: all_drawable_def list_all_iff)
  then show "all_drawable (put c k ?r)"
    by (auto simp: all_drawable_def list_all_iff put_def v)
qed

lemma keys_mem_put: "fst ` set (stations (put c k r)) = fst ` set (stations c)"
  using keys_put [of c k r] by (metis set_map)

lemma getByCode_key: "k \<in> fst ` set (stations c) \<Longrightarrow> \<exists>st. getByCode c k = Some st"
  by (cases "getByCode c k") (auto simp: getByCode_def map_of_eq_None_iff)

lemma transition_step_obtain:
  assumes "all_drawable c" and "getByCode c k = Some st"
    and "sl \<in> set layers" and "ll \<in> set layers"
  obtains r where "transition target str opa sl ll ch st (view c) (events c) = (None, r)"
    and "all_drawable (put c k r)"
    and "fst (snd r) = (if selected st = target then view c
                        else (view c)\<lparr>schemeNode := redraw str opa sl ll (view c) st\<rparr>)"
    and "drawable (view c) st"
proof -
  note step = transition_step [OF assms, of target str opa ch]
  let ?r = "snd (transition target str opa sl ll ch st (view c) (events c))"
  have a: "transition target str opa sl ll ch st (view c) (events c) = (None, ?r)"
    using step(1) by simp
  have b: "fst (snd ?r) = (if selected st = target then view c
                        else (view c)\<lparr>schemeNode := redraw str opa sl ll (view c) st\<rparr>)"
    unfolding step(1) by simp
  have "(k, st) \<in> set (stations c)"
    using assms(2) by (simp add: getByCode_def map_of_SomeD)
  then have d: "drawable (view c) st"
    using assms(1) by (auto simp: all_drawable_def list_all_iff)
  from a step(2) b d show ?thesis by (rule that)
qed

lemma forEach_station_progress:
  assumes "sl \<in> set layers" and "ll \<in> set layers"
  shows "all_drawable c \<Longrightarrow> set ks \<subseteq> fst ` set (stations c) \<Longrightarrow>
    fst (forEach_station (transition target str opa sl ll ch) c ks) = None"
proof (induction ks arbitrary: c)
  case Nil
  then show ?case by simp
next
  case (Cons k ks)
  from Cons.prems(2) obtain st where g: "getByCode c k = Some st"
    using getByCode_key [of k c] by auto
  from Cons.prems(1) g assms obtain r where
    t: "transition target str opa sl ll ch st (view c) (events c) = (None, r)" and
    dr: "all_drawable (put c k r)"
    by (rule transition_step_obtain)
  have "fst (forEach_station (transition target str opa sl ll ch) (put c k r) ks) = None"
    using dr Cons.prems(2) by (intro Cons.IH) (simp_all add: keys_mem_put)
  then show ?case using g t by simp
qed

lemma forEach_station_keeps:
  assumes "sl \<in> set layers" and "ll \<in> set layers"
  shows "all_drawable c \<Longrightarrow> set ks \<subseteq> fst ` set (stations c) \<Longrightarrow>
    drawn_as str opa sl ll (view c) s \<Longrightarrow>
    drawn_as str opa sl ll (view (snd (forEach_station (transition target str opa sl ll ch) c ks))) s"
proof (induction ks arbitrary: c)
  case Nil
  then show ?case by simp
next
  case (Cons k ks)
  from Cons.prems(2) obtain st where g: "getByCode c k = Some st"
    using getByCode_key [of k c] by auto
  from Cons.prems(1) g assms obtain r where
    t: "transition target str opa sl ll ch st (view c) (events c) = (None, r)" and
    dr: "all_drawable (put c k r)" and
    vr: "fst (snd r) = (if selected st = target then view c
                        else (view c)\<lparr>schemeNode := redraw str opa sl ll (view c) st\<rparr>)" and
    d: "drawable (view c) st"
    by (rule transition_step_obtain)
  have "drawn_as str opa sl ll (view (put c k r)) s"
    using Cons.prems(3) drawn_as_redraw_other [OF d assms Cons.prems(3)]
    by (simp add: put_def vr)
  then have "drawn_as str opa sl ll
      (view (snd (forEach_station (transition target str opa sl ll ch) (put c k r) ks))) s"
    using dr Cons.prems(2) by (intro Cons.IH) (simp_all add: keys_mem_put)
  then show ?case using g t by simp
qed

lemma forEach_station_draws:
  assumes "sl \<in> set layers" and "ll \<in> set layers"
  shows "all_drawable c \<Longrightarrow> set ks \<subseteq> fst ` set (stations c) \<Longrightarrow> i \<in> set ks \<Longrightarrow>
    getByCode c i = Some s \<Longrightarrow> selected s \<noteq> target \<Longrightarrow>
    drawn_as str opa sl ll (view (snd (forEach_station (transition target str opa sl ll ch) c ks))) s"
proof (induction ks arbitrary: c)
  case Nil
  then show ?case by simp
next
  case (Cons k ks)
  from Cons.prems(2) obtain st where g: "getByCode c k = Some st"
    using getByCode_key [of k c] by auto
  from Cons.prems(1) g assms obtain r where
    t: "transition target str opa sl ll ch st (view c) (events c) = (None, r)" and
    dr: "all_drawable (put c k r)" and
    vr: "fst (snd r) = (if selected st = target then view c
                        else (view c)\<lparr>schemeNode := redraw str opa sl ll (view c) st\<rparr>)" and
    d: "drawable (view c) st"
    by (rule transition_step_obtain)
  have keys: "set ks \<subseteq> fst ` set (stations (put c k r))"
    using Cons.prems(2) by (simp add: keys_mem_put)
  have "drawn_as str opa sl ll
      (view (snd (forEach_station (transition target str opa sl ll ch) (put c k r) ks))) s"
  proof (cases "k = i")
    case True
    then have st: "st = s" using g Cons.prems(4) by simp
    have "drawn_as str opa sl ll (view (put c k r)) s"
      using Cons.prems(5) drawn_as_redraw_self [OF d assms, of str opa]
      by (simp add: put_def vr st)
    with dr keys show ?thesis
      by (rule forEach_station_keeps [OF assms])
  next
    case False
    then have "i \<in> set ks" using Cons.prems(3) by simp
    moreover have "getByCode (put c k r) i = Some s"
      using False g Cons.prems(4) by (simp add: getByCode_put)
    ultimately show ?thesis
      using dr keys Cons.prems(5) by (intro Cons.IH) simp_all
  qed
  then show ?case using g t by simp
qed

lemma forEach_appendChild_error:
  "fst (forEach_appendChild parentNode pid els d) \<noteq> Some (LookupError j)"
  by (induction els arbitrary: d) (auto split: option.splits)

lemma transition_error:
  "fst (transition target str opa sl ll ch st v evs) \<noteq> Some (LookupError j)"
  using forEach_appendChild_error
  by (auto simp: transition_def Let_def getStationNodes_def appendTo_def
      split: option.splits sum.splits prod.splits)

lemma forEach_station_error:
  assumes "\<And>st v evs. fst (T st v evs) \<noteq> Some (LookupError j)"
  shows "fst (forEach_station T c ks) \<noteq> Some (LookupError j)"
proof (induction ks arbitrary: c)
  case Nil
  then show ?case by simp
next
  case (Cons k ks)
  show ?case
  proof (cases "getByCode c k")
    case None
    then show ?thesis by simp
  next
    case (Some st)
    obtain e r where t: "T st (view c) (events c) = (e, r)"
      by (cases "T st (view c) (events c)")
    show ?thesis
    proof (cases e)
      case None
      then show ?thesis using Some t Cons.IH [of "put c k r"] by simp
    next
      case (Some a)
      then have "a \<noteq> LookupError j" using assms [of st "view c" "events c"] t by simp
      then show ?thesis using \<open>getByCode c k = Some st\<close> t Some by simp
    qed
  qed
qed

lemma store_same: "map_of xs k = Some st \<Longrightarrow> store k st xs = xs"
  by (induction xs) (auto split: if_splits)

lemma set_layers:
  "HighlightLayerStations \<in> set layers" "HighlightLayerLabels \<in> set layers"
  "SchemeLayerStations \<in> set layers" "SchemeLayerLabels \<in> set layers"
  by (simp_all add: layers_def)

lemma select_one_drawable:
  assumes "getByCode c j = Some st" and "drawable (view c) st" and "\<not> selected st"
  shows "select c (One j)
    = (None, c\<lparr>stations := store j (st\<lparr>selected := True\<rparr>) (stations c),
                view := (view c)\<lparr>schemeNode :=
                  redraw (CssText ''#bbb'') (CssNum 1) HighlightLayerStations HighlightLayerLabels
                    (view c) st\<rparr>,
                events := events c @ [SelectionChange Select (code st)]\<rparr>)"
  using assms transition_drawable [OF assms(2) set_layers(1) set_layers(2),
      of True "CssText ''#bbb''" "CssNum 1" Select "events c"]
  by (simp add: select_def concat_codes_def Station_select_transition put_def)

lemma deselect_one_drawable:
  assumes "getByCode c j = Some st" and "drawable (view c) st" and "selected st"
  shows "deselect c (One j)
    = (None, c\<lparr>stations := store j (st\<lparr>selected := False\<rparr>) (stations c),
                view := (view c)\<lparr>schemeNode :=
                  redraw (CssText '''') (CssText '''') SchemeLayerStations SchemeLayerLabels
                    (view c) st\<rparr>,
                events := events c @ [SelectionChange Deselect (code st)]\<rparr>)"
  using assms transition_drawable [OF assms(2) set_layers(3) set_layers(4),
      of False "CssText ''''" "CssText ''''" Deselect "events c"]
  by (simp add: deselect_def concat_codes_def Station_deselect_transition put_def)

lemma select_all_drawable:
  assumes "all_drawable c" and "set (concat_codes cs) \<subseteq> fst ` set (stations c)"
  shows "fst (select c cs) = None"
    and "i \<in> set (concat_codes cs) \<Longrightarrow> \<exists>s. getByCode c i = Some s
          \<and> getByCode (snd (select c cs)) i = Some (s\<lparr>selected := True\<rparr>)
          \<and> (\<not> selected s \<longrightarrow> drawn_selected (view (snd (select c cs))) s)"
proof -
  have eq: "select c cs = forEach_station
      (transition True (CssText ''#bbb'') (CssNum 1) HighlightLayerStations HighlightLayerLabels
        Select) c (concat_codes cs)"
    unfolding select_def select_forEach_station
    by (rule arg_cong [where f = "\<lambda>T. forEach_station T c (concat_codes cs)"])
       (simp add: fun_eq_iff Station_select_transition)
  show ok: "fst (select c cs) = None"
    unfolding eq using set_layers(1) set_layers(2) assms by (rule forEach_station_progress)
  assume i: "i \<in> set (concat_codes cs)"
  then obtain s where s: "getByCode c i = Some s"
    using assms(2) getByCode_key [of i c] by auto
  from ok have "select_forEach c (concat_codes cs) = (None, snd (select c cs))"
    by (simp add: select_def prod_eq_iff)
  from select_forEach_getByCode [OF this, of i] i s
  have a: "getByCode (snd (select c cs)) i = Some (s\<lparr>selected := True\<rparr>)"
    by simp
  have "\<not> selected s \<longrightarrow> drawn_selected (view (snd (select c cs))) s"
  proof
    assume "\<not> selected s"
    then have "selected s \<noteq> True" by simp
    with set_layers(1) set_layers(2) assms i s
    show "drawn_selected (view (snd (select c cs))) s"
      unfolding eq drawn_selected_def by (rule forEach_station_draws)
  qed
  with s a show "\<exists>s. getByCode c i = Some s
          \<and> getByCode (snd (select c cs)) i = Some (s\<lparr>selected := True\<rparr>)
          \<and> (\<not> selected s \<longrightarrow> drawn_selected (view (snd (select c cs))) s)"
    by blast
qed

lemma deselect_all_drawable:
  assumes "all_drawable c" and "set (concat_codes cs) \<subseteq> fst ` set (stations c)"
  shows "fst (deselect c cs) = None"
    and "i \<in> set (concat_codes cs) \<Longrightarrow> \<exists>s. getByCode c i = Some s
          \<and> getByCode (snd (deselect c cs)) i = Some (s\<lparr>selected := False\<rparr>)
          \<and> (selected s \<longrightarrow> drawn_unselected (view (snd (deselect c cs))) s)"
proof -
  have eq: "deselect c cs = forEach_station
      (transition False (CssText '''') (CssText '''') SchemeLayerStations SchemeLayerLabels
        Deselect) c (concat_codes cs)"
    unfolding deselect_def deselect_forEach_station
    by (rule arg_cong [where f = "\<lambda>T. forEach_station T c (concat_codes cs)"])
       (simp add: fun_eq_iff Station_deselect_transition)
  show ok: "fst (deselect c cs) = None"
    unfolding eq using set_layers(3) set_layers(4) assms by (rule forEach_station_progress)
  assume i: "i \<in> set (concat_codes cs)"
  then obtain s where s: "getByCode c i = Some s"
    using assms(2) getByCode_key [of i c] by auto
  from ok have "deselect_forEach c (concat_codes cs) = (None, snd (deselect c cs))"
    by (simp add: deselect_def prod_eq_iff)
  from deselect_forEach_getByCode [OF this, of i] i s
  have a: "getByCode (snd (deselect c cs)) i = Some (s\<lparr>selected := False\<rparr>)"
    by simp
  have "selected s \<longrightarrow> drawn_unselected (view (snd (deselect c cs))) s"
  proof
    assume "selected s"
    then have "selected s \<noteq> False" by simp
    with set_layers(3) set_layers(4) assms i s
    show "drawn_unselected (view (snd (deselect c cs))) s"
      unfolding eq drawn_unselected_def by (rule forEach_station_draws)
  qed
  with s a show "\<exists>s. getByCode c i = Some s
          \<and> getByCode (snd (deselect c cs)) i = Some (s\<lparr>selected := False\<rparr>)
          \<and> (selected s \<longrightarrow> drawn_unselected (view (snd (deselect c cs))) s)"
    by blast
qed

lemma select_not_LookupError: "fst (select c cs) \<noteq> Some (LookupError j)"
  unfolding select_def select_forEach_station
  by (rule forEach_station_error) (simp add: Station_select_transition transition_error)

lemma deselect_not_LookupError: "fst (deselect c cs) \<noteq> Some (LookupError j)"
  unfolding deselect_def deselect_forEach_station
  by (rule forEach_station_error) (simp add: Station_deselect_transition transition_error)

lemmas example_defs =
  collection1_def new_StationCollection_def new_SchemeView_def scheme1_def doc1_def
  getStations_def getSize_def createDom_def new_Station_def select_def concat_codes_def getByCode_def
  Station_select_def Station_deselect_def getStationNodes_def getLabel_def getElementById_def appendTo_def 
  appendChild_def put_def getLabelNode_def deselect_def getSelection_def label0_def element0_def Let_def
  view1_def station2_def

lemma annotate_selected: "selected (snd (annotate st v h props)) = selected st"
  by (simp add: annotate_def split: sum.splits)

text \<open>
  Claim C3.  \<open>select()\<close> on a station whose \<open>selected\<close> flag is set, and \<open>deselect()\<close> on
  one whose flag is clear, raise nothing and leave the station, the whole view (rect
  styling and layer placement of every glyph) and the event log exactly as they were.
  Among the operations on a station and its view, only \<open>select\<close>, \<open>deselect\<close> and the
  click listener can return a station with a different flag, and the click listener is a
  call of \<open>deselect\<close> or \<open>select\<close>.
\<close>

theorem C3_select_deselect_noop:
  "(selected st \<longrightarrow> Station_select st v evs = (None, st, v, evs))
   \<and> (\<not> selected st \<longrightarrow> Station_deselect st v evs = (None, st, v, evs))
   \<and> (selected (fst (snd (Station_apply operation st v evs))) \<noteq> selected st
        \<longrightarrow> operation = OpSelect \<or> operation = OpDeselect \<or> operation = OpClick)
   \<and> Station_apply OpClick st v evs
        = (if selected st then Station_apply OpDeselect st v evs
           else Station_apply OpSelect st v evs)"
proof -
  have a: "selected st \<longrightarrow> Station_select st v evs = (None, st, v, evs)"
    by (simp add: Station_select_def)
  have b: "\<not> selected st \<longrightarrow> Station_deselect st v evs = (None, st, v, evs)"
    by (simp add: Station_deselect_def)
  have c: "selected (fst (snd (Station_apply operation st v evs))) \<noteq> selected st
        \<longrightarrow> operation = OpSelect \<or> operation = OpDeselect \<or> operation = OpClick"
    by (cases operation) (simp_all add: Station_apply_def Let_def annotate_selected)
  have d: "Station_apply OpClick st v evs
        = (if selected st then Station_apply OpDeselect st v evs
           else Station_apply OpSelect st v evs)"
    by (simp add: Station_apply_def Station_click_def)
  from a b c d show ?thesis by blast
qed

theorem C3_select_deselect_noop_witness:
  "selected (station2\<lparr>selected := True\<rparr>)
   \<and> Station_select (station2\<lparr>selected := True\<rparr>) view1 [] = (None, station2\<lparr>selected := True\<rparr>, view1, [])
   \<and> selected (fst (snd (Station_apply OpDeselect (station2\<lparr>selected := True\<rparr>) view1 [])))
       \<noteq> selected (station2\<lparr>selected := True\<rparr>)
   \<and> \<not> selected station2
   \<and> Station_deselect station2 view1 [] = (None, station2, view1, [])
   \<and> selected (fst (snd (Station_apply OpSelect station2 view1 []))) \<noteq> selected station2"
  using C3_select_deselect_noop [of "station2\<lparr>selected := True\<rparr>" view1 "[]" OpDeselect]
    C3_select_deselect_noop [of station2 view1 "[]" OpSelect]
  by (simp add: Station_apply_def example_defs)



text \<open>
  Claim C5, as stated, fails: for the code 99, which is no key of the collection,
  \<open>select(99)\<close> and \<open>deselect(99)\<close> raise the TypeError of calling a method on
  \<open>undefined\<close>, not a LookupError.
\<close>

theorem C5_unknown_code_counterexample:
  "select collection1 (One 99) = (Some (TypeError (UnknownCode 99)), collection1)
   \<and> fst (select collection1 (One 99)) \<noteq> Some (LookupError 99)
   \<and> deselect collection1 (One 99) = (Some (TypeError (UnknownCode 99)), collection1)
   \<and> fst (deselect collection1 (One 99)) \<noteq> Some (LookupError 99)"
proof -
  have "getByCode collection1 99 = None"
    by (simp add: example_defs)
  then show ?thesis
    by (simp add: select_def deselect_def concat_codes_def)
qed

text \<open>
  Claim C5, amended.  For a code \<open>k\<close> that is no key of the collection, \<open>getByCode\<close> returns
  the absence value, and \<open>select(k)\<close> and \<open>deselect(k)\<close> raise the TypeError of calling a
  method on that absent value and change nothing; a list containing \<open>k\<close> never completes
  normally, and no call ever raises a LookupError.  A single code is handled as the
  one-element list, and a list code by code, stopping at the first failure.  For present
  codes on a document that has the stations' labels, glyphs and layers the call
  completes: every listed code is the key of a station that is now selected (for
  \<open>deselect\<close>: unselected) and otherwise unchanged, and each station whose flag changed is
  drawn in the highlight layers with the highlighted rect (for \<open>deselect\<close>: in the scheme
  layers with the cleared rect).  For one such code the call is the Station transition:
  the flag set, the document redrawn, one \<open>selectionchange\<close> event appended.
\<close>

theorem C5_unknown_code:
  assumes "k \<notin> fst ` set (stations c)"
  shows "getByCode c k = None
       \<and> select c (One k) = (Some (TypeError (UnknownCode k)), c)
       \<and> deselect c (One k) = (Some (TypeError (UnknownCode k)), c)
       \<and> (k \<in> set ks \<longrightarrow> fst (select c (Many ks)) \<noteq> None \<and> fst (deselect c (Many ks)) \<noteq> None)
       \<and> fst (select c cs) \<noteq> Some (LookupError j)
       \<and> fst (deselect c cs) \<noteq> Some (LookupError j)
       \<and> select c (One j) = select c (Many [j])
       \<and> deselect c (One j) = deselect c (Many [j])
       \<and> select c (Many (j # js))
           = (if fst (select c (One j)) = None then select (snd (select c (One j))) (Many js)
              else select c (One j))
       \<and> deselect c (Many (j # js))
           = (if fst (deselect c (One j)) = None then deselect (snd (deselect c (One j))) (Many js)
              else deselect c (One j))
       \<and> (all_drawable c \<and> set (concat_codes cs) \<subseteq> fst ` set (stations c) \<longrightarrow>
            fst (select c cs) = None
            \<and> (\<forall>i \<in> set (concat_codes cs). \<exists>s. getByCode c i = Some s
                 \<and> getByCode (snd (select c cs)) i = Some (s\<lparr>selected := True\<rparr>)
                 \<and> (\<not> selected s \<longrightarrow> drawn_selected (view (snd (select c cs))) s)))
       \<and> (all_drawable c \<and> set (concat_codes cs) \<subseteq> fst ` set (stations c) \<longrightarrow>
            fst (deselect c cs) = None
            \<and> (\<forall>i \<in> set (concat_codes cs). \<exists>s. getByCode c i = Some s
                 \<and> getByCode (snd (deselect c cs)) i = Some (s\<lparr>selected := False\<rparr>)
                 \<and> (selected s \<longrightarrow> drawn_unselected (view (snd (deselect c cs))) s)))
       \<and> (getByCode c j = Some st \<and> drawable (view c) st \<and> \<not> selected st \<longrightarrow>
            select c (One j)
              = (None, c\<lparr>stations := store j (st\<lparr>selected := True\<rparr>) (stations c),
                          view := (view c)\<lparr>schemeNode :=
                            redraw (CssText ''#bbb'') (CssNum 1) HighlightLayerStations
                              HighlightLayerLabels (view c) st\<rparr>,
                          events := events c @ [SelectionChange Select (code st)]\<rparr>))
       \<and> (getByCode c j = Some st \<and> drawable (view c) st \<and> selected st \<longrightarrow>
            deselect c (One j)
              = (None, c\<lparr>stations := store j (st\<lparr>selected := False\<rparr>) (stations c),
                          view := (view c)\<lparr>schemeNode :=
                            redraw (CssText '''') (CssText '''') SchemeLayerStations
                              SchemeLayerLabels (view c) st\<rparr>,
                          events := events c @ [SelectionChange Deselect (code st)]\<rparr>))"
proof -
  have a: "getByCode c k = None"
    using assms by (simp add: getByCode_def map_of_eq_None_iff)
  then have b: "select c (One k) = (Some (TypeError (UnknownCode k)), c)"
    and b': "deselect c (One k) = (Some (TypeError (UnknownCode k)), c)"
    by (simp_all add: select_def deselect_def concat_codes_def)
  have d: "k \<in> set ks \<longrightarrow> fst (select c (Many ks)) \<noteq> None \<and> fst (deselect c (Many ks)) \<noteq> None"
    using a select_forEach_unknown [of k ks c] deselect_forEach_unknown [of k ks c]
    by (simp add: select_def deselect_def concat_codes_def)
  have e: "select c (One j) = select c (Many [j])" "deselect c (One j) = deselect c (Many [j])"
    by (simp_all add: select_def deselect_def concat_codes_def)
  have g: "select c (Many (j # js))
           = (if fst (select c (One j)) = None then select (snd (select c (One j))) (Many js)
              else select c (One j))"
    by (auto simp: select_def concat_codes_def split: prod.splits option.splits)
  have g': "deselect c (Many (j # js))
           = (if fst (deselect c (One j)) = None then deselect (snd (deselect c (One j))) (Many js)
              else deselect c (One j))"
    by (auto simp: deselect_def concat_codes_def split: prod.splits option.splits)
  have h: "all_drawable c \<and> set (concat_codes cs) \<subseteq> fst ` set (stations c) \<longrightarrow>
            fst (select c cs) = None
            \<and> (\<forall>i \<in> set (concat_codes cs). \<exists>s. getByCode c i = Some s
                 \<and> getByCode (snd (select c cs)) i = Some (s\<lparr>selected := True\<rparr>)
                 \<and> (\<not> selected s \<longrightarrow> drawn_selected (view (snd (select c cs))) s))"
    using select_all_drawable [of c cs] by blast
  have h': "all_drawable c \<and> set (concat_codes cs) \<subseteq> fst ` set (stations c) \<longrightarrow>
            fst (deselect c cs) = None
            \<and> (\<forall>i \<in> set (concat_codes cs). \<exists>s. getByCode c i = Some s
                 \<and> getByCode (snd (deselect c cs)) i = Some (s\<lparr>selected := False\<rparr>)
                 \<and> (selected s \<longrightarrow> drawn_unselected (view (snd (deselect c cs))) s))"
    using deselect_all_drawable [of c cs] by blast
  have s: "getByCode c j = Some st \<and> drawable (view c) st \<and> \<not> selected st \<longrightarrow>
            select c (One j)
              = (None, c\<lparr>stations := store j (st\<lparr>selected := True\<rparr>) (stations c),
                          view := (view c)\<lparr>schemeNode :=
                            redraw (CssText ''#bbb'') (CssNum 1) HighlightLayerStations
                              HighlightLayerLabels (view c) st\<rparr>,
                          events := events c @ [SelectionChange Select (code st)]\<rparr>)"
    using select_one_drawable [of c j st] by blast
  have s': "getByCode c j = Some st \<and> drawable (view c) st \<and> selected st \<longrightarrow>
            deselect c (One j)
              = (None, c\<lparr>stations := store j (st\<lparr>selected := False\<rparr>) (stations c),
                          view := (view c)\<lparr>schemeNode :=
                            redraw (CssText '''') (CssText '''') SchemeLayerStations
                              SchemeLayerLabels (view c) st\<rparr>,
                          events := events c @ [SelectionChange Deselect (code st)]\<rparr>)"
    using deselect_one_drawable [of c j st] by blast
  show ?thesis
    by (intro conjI a b b' d select_not_LookupError deselect_not_LookupError e g g' h h' s s')
qed

lemmas drawing_defs =
  all_drawable_def drawable_def has_rect_def present_def layers_def layers_of_def
  children_of_def

theorem C5_unknown_code_witness:
  "99 \<notin> fst ` set (stations collection1)
   \<and> getByCode collection1 99 = None
   \<and> (99::nat) \<in> set [2, 99]
   \<and> fst (select collection1 (Many [2, 99])) = Some (TypeError (UnknownCode 99))
   \<and> getSelection (snd (select collection1 (Many [2, 99]))) = [2]
   \<and> all_drawable collection1
   \<and> set (concat_codes (Many [2, 5])) \<subseteq> fst ` set (stations collection1)
   \<and> getByCode collection1 2 = Some station2
   \<and> \<not> selected station2
   \<and> fst (select collection1 (Many [2, 5])) = None
   \<and> getByCode (snd (select collection1 (Many [2, 5]))) 2 = Some (station2\<lparr>selected := True\<rparr>)
   \<and> drawn_selected (view (snd (select collection1 (Many [2, 5])))) station2
   \<and> layers_of (schemeNode (view (snd (select collection1 (Many [2, 5]))))) (Label 2)
       = [HighlightLayerLabels]
   \<and> all_drawable (snd (select collection1 (Many [2, 5])))
   \<and> set (concat_codes (One 2)) \<subseteq> fst ` set (stations (snd (select collection1 (Many [2, 5]))))
   \<and> selected (station2\<lparr>selected := True\<rparr>)
   \<and> fst (deselect (snd (select collection1 (Many [2, 5]))) (One 2)) = None
   \<and> getByCode (snd (deselect (snd (select collection1 (Many [2, 5]))) (One 2))) 2
       = Some station2
   \<and> drawn_unselected (view (snd (deselect (snd (select collection1 (Many [2, 5]))) (One 2))))
        (station2\<lparr>selected := True\<rparr>)
   \<and> layers_of (schemeNode (view (snd (deselect (snd (select collection1 (Many [2, 5])))
        (One 2))))) (Label 2) = [SchemeLayerLabels]
   \<and> layers_of (schemeNode (view (snd (deselect (snd (select collection1 (Many [2, 5])))
        (One 2))))) (Label 5) = [HighlightLayerLabels]
   \<and> events (snd (deselect (snd (select collection1 (Many [2, 5]))) (One 2)))
       = [SelectionChange Select 2, SelectionChange Select 5, SelectionChange Deselect 2]
   \<and> getSelection (snd (deselect (snd (select collection1 (Many [2, 5]))) (One 2))) = [5]"
proof -
  let ?c1 = "snd (select collection1 (Many [2, 5]))"
  let ?c2 = "snd (deselect ?c1 (One 2))"
  have k: "99 \<notin> fst ` set (stations collection1)"
    by (simp add: example_defs)
  note t = C5_unknown_code [OF k, where ks = "[2, 99]" and cs = "Many [2, 5]" and j = 2
      and js = "[]" and st = station2]
  have a: "getByCode collection1 99 = None"
    using t by blast
  have m: "(99::nat) \<in> set [2, 99]"
    by simp
  have d: "fst (select collection1 (Many [2, 99])) = Some (TypeError (UnknownCode 99))"
    by (simp add: example_defs)
  have e: "getSelection (snd (select collection1 (Many [2, 99]))) = [2]"
    by (simp add: example_defs)
  have w: "all_drawable collection1"
    by (simp add: example_defs drawing_defs)
  have p: "set (concat_codes (Many [2, 5])) \<subseteq> fst ` set (stations collection1)"
    by (simp add: example_defs)
  have g2: "getByCode collection1 2 = Some station2"
    by (simp add: example_defs)
  have u: "\<not> selected station2"
    by (simp add: example_defs)
  have sel: "fst (select collection1 (Many [2, 5])) = None
      \<and> (\<forall>i \<in> set (concat_codes (Many [2, 5])). \<exists>s. getByCode collection1 i = Some s
           \<and> getByCode ?c1 i = Some (s\<lparr>selected := True\<rparr>)
           \<and> (\<not> selected s \<longrightarrow> drawn_selected (view ?c1) s))"
    using t w p by blast
  then have f: "fst (select collection1 (Many [2, 5])) = None"
    by blast
  have "2 \<in> set (concat_codes (Many [2, 5]))"
    by (simp add: concat_codes_def)
  with sel g2 u have g1: "getByCode ?c1 2 = Some (station2\<lparr>selected := True\<rparr>)"
    and ds: "drawn_selected (view ?c1) station2"
    by auto
  have l1: "layers_of (schemeNode (view ?c1)) (Label 2) = [HighlightLayerLabels]"
    by (simp add: example_defs drawing_defs)
  have k1: "99 \<notin> fst ` set (stations ?c1)"
    by (simp add: example_defs)
  note t1 = C5_unknown_code [OF k1, where ks = "[2, 99]" and cs = "One 2" and j = 2
      and js = "[]" and st = station2]
  have w1: "all_drawable ?c1"
    by (simp add: example_defs drawing_defs)
  have p1: "set (concat_codes (One 2)) \<subseteq> fst ` set (stations ?c1)"
    by (simp add: example_defs)
  have u1: "selected (station2\<lparr>selected := True\<rparr>)"
    by simp
  have des: "fst (deselect ?c1 (One 2)) = None
      \<and> (\<forall>i \<in> set (concat_codes (One 2)). \<exists>s. getByCode ?c1 i = Some s
           \<and> getByCode ?c2 i = Some (s\<lparr>selected := False\<rparr>)
           \<and> (selected s \<longrightarrow> drawn_unselected (view ?c2) s))"
    using t1 w1 p1 by blast
  then have f1: "fst (deselect ?c1 (One 2)) = None"
    by blast
  have "2 \<in> set (concat_codes (One 2))"
    by (simp add: concat_codes_def)
  with des g1 u1 have "getByCode ?c2 2 = Some (station2\<lparr>selected := True, selected := False\<rparr>)"
    and du: "drawn_unselected (view ?c2) (station2\<lparr>selected := True\<rparr>)"
    by auto
  then have g3: "getByCode ?c2 2 = Some station2"
    by (simp add: station2_def new_Station_def)
  have l2: "layers_of (schemeNode (view ?c2)) (Label 2) = [SchemeLayerLabels]"
    by (simp add: example_defs drawing_defs)
  have l5: "layers_of (schemeNode (view ?c2)) (Label 5) = [HighlightLayerLabels]"
    by (simp add: example_defs drawing_defs)
  have ev: "events ?c2
      = [SelectionChange Select 2, SelectionChange Select 5, SelectionChange Deselect 2]"
    by (simp add: example_defs)
  have gs: "getSelection ?c2 = [5]"
    by (simp add: example_defs)
  show ?thesis
    by (intro conjI k a m d e w p g2 u f g1 ds l1 w1 p1 u1 f1 g3 du l2 l5 ev gs)
qed

text \<open>
  Claim C9.  For a metadata entry with key \<open>k\<close> and record \<open>m\<close>, the station that the fresh
  collection returns for \<open>k\<close> has the code \<open>labelId m\<close> and the title \<open>name m\<close>; and after a
  completed \<open>select\<close> on the fresh collection \<open>getSelection()\<close> is the list of the label
  ids of the entries whose keys were listed, in metadata order.  The witness has the key 7
  with label id 3: \<open>getByCode(7).code\<close> is 3, \<open>getByCode(3)\<close> is absent, and after
  \<open>select(7)\<close> the selection is \<open>[3]\<close>.
\<close>

theorem C9_code_is_labelId:
  assumes "distinct (map fst (getStations (scheme v)))"
    and "(k, m) \<in> set (getStations (scheme v))"
  shows "(\<exists>st. getByCode (new_StationCollection v) k = Some st
            \<and> code st = labelId m \<and> title st = name m)
       \<and> (fst (select (new_StationCollection v) cs) = None \<longrightarrow>
            getSelection (snd (select (new_StationCollection v) cs))
              = map (labelId \<circ> snd)
                  (filter (\<lambda>(j, n). j \<in> set (concat_codes cs)) (getStations (scheme v))))"
proof -
  have "map_of (getStations (scheme v)) k = Some m"
    using assms by simp
  then have "getByCode (new_StationCollection v) k = Some (new_Station m)"
    by (simp add: getByCode_def stations_new map_of_map)
  then have a: "\<exists>st. getByCode (new_StationCollection v) k = Some st
            \<and> code st = labelId m \<and> title st = name m"
    by (simp add: new_Station_def)
  have b: "fst (select (new_StationCollection v) cs) = None \<longrightarrow>
            getSelection (snd (select (new_StationCollection v) cs))
              = map (labelId \<circ> snd)
                  (filter (\<lambda>(j, n). j \<in> set (concat_codes cs)) (getStations (scheme v)))"
  proof
    assume "fst (select (new_StationCollection v) cs) = None"
    then have "select (new_StationCollection v) cs
        = (None, snd (select (new_StationCollection v) cs))"
      by (simp add: prod_eq_iff)
    with assms(1) show "getSelection (snd (select (new_StationCollection v) cs))
              = map (labelId \<circ> snd)
                  (filter (\<lambda>(j, n). j \<in> set (concat_codes cs)) (getStations (scheme v)))"
      by (rule getSelection_select_new)
  qed
  from a b show ?thesis by blast
qed

theorem C9_code_is_labelId_witness:
  "distinct (map fst (getStations (scheme view1)))
   \<and> (7, \<lparr> labelId = 3, name = ''Park Row'' \<rparr>) \<in> set (getStations (scheme view1))
   \<and> map_option code (getByCode (new_StationCollection view1) 7) = Some 3
   \<and> map_option title (getByCode (new_StationCollection view1) 7) = Some ''Park Row''
   \<and> getByCode (new_StationCollection view1) 3 = None
   \<and> fst (select (new_StationCollection view1) (One 7)) = None
   \<and> getSelection (snd (select (new_StationCollection view1) (One 7))) = [3]"
proof -
  have h1: "distinct (map fst (getStations (scheme view1)))"
    by (simp add: example_defs)
  have h2: "(7, \<lparr> labelId = 3, name = ''Park Row'' \<rparr>) \<in> set (getStations (scheme view1))"
    by (simp add: example_defs)
  note t = C9_code_is_labelId [OF h1 h2, where cs = "One 7"]
  have a: "map_option code (getByCode (new_StationCollection view1) 7) = Some 3"
    and b: "map_option title (getByCode (new_StationCollection view1) 7) = Some ''Park Row''"
    using t by auto
  have c: "getByCode (new_StationCollection view1) 3 = None"
    by (simp add: example_defs)
  have f: "fst (select (new_StationCollection view1) (One 7)) = None"
    by (simp add: example_defs)
  have g: "getSelection (snd (select (new_StationCollection view1) (One 7))) = [3]"
    using t f by (simp add: example_defs)
  from h1 h2 a b c f g show ?thesis by simp
qed

section \<open>Search\<close>

lemma split_not_Nil: "split sep xs \<noteq> []"
  by (induction xs) (auto split: list.splits)

lemma hd_split: "hd (split sep xs) = takeWhile (\<lambda>x. x \<noteq> sep) xs"
  by (induction xs) (auto split: list.splits simp: split_not_Nil)

lemma tl_split_sep: "tl (split sep (sep # xs)) = split sep xs"
  by simp

lemma tl_split_other: "x \<noteq> sep \<Longrightarrow> tl (split sep (x # xs)) = tl (split sep xs)"
  by (auto split: list.splits simp: split_not_Nil)

lemma take_eq_iff_append: "(take (length r) xs = r) = (\<exists>suf. xs = r @ suf)"
proof
  assume "take (length r) xs = r"
  then have "xs = r @ drop (length r) xs" by (metis append_take_drop_id)
  then show "\<exists>suf. xs = r @ suf" ..
next
  assume "\<exists>suf. xs = r @ suf"
  then show "take (length r) xs = r" by auto
qed

lemma take_takeWhile_iff:
  "(take (length r) (takeWhile (\<lambda>x. x \<noteq> sep) xs) = r)
    = (sep \<notin> set r \<and> take (length r) xs = r)"
proof (induction xs arbitrary: r)
  case Nil
  then show ?case by auto
next
  case (Cons x xs)
  show ?case
  proof (cases r)
    case Nil
    then show ?thesis by simp
  next
    case (Cons a r')
    then show ?thesis using Cons.IH [of r'] by auto
  qed
qed

lemma starts_token_iff:
  "starts_token sep r xs = ((\<exists>suf. xs = r @ suf) \<or> starts_later sep r xs)"
  unfolding starts_token_def starts_later_def by (metis append_Nil)

lemma starts_later_Nil: "starts_later sep r [] = False"
  by (simp add: starts_later_def)

lemma starts_later_sep: "starts_later sep r (sep # xs) = starts_token sep r xs"
proof
  assume "starts_later sep r (sep # xs)"
  then obtain pre suf where p: "sep # xs = pre @ r @ suf" "pre \<noteq> []" "last pre = sep"
    unfolding starts_later_def by blast
  then obtain pre' where pre: "pre = sep # pre'" by (cases pre) auto
  with p have "xs = pre' @ r @ suf" and "pre' = [] \<or> last pre' = sep" by (auto split: if_splits)
  then show "starts_token sep r xs" unfolding starts_token_def by blast
next
  assume "starts_token sep r xs"
  then obtain pre suf where p: "xs = pre @ r @ suf" "pre = [] \<or> last pre = sep"
    unfolding starts_token_def by blast
  then have "sep # xs = (sep # pre) @ r @ suf" "sep # pre \<noteq> []" "last (sep # pre) = sep" by auto
  then show "starts_later sep r (sep # xs)" unfolding starts_later_def by blast
qed

lemma starts_later_other:
  assumes "x \<noteq> sep"
  shows "starts_later sep r (x # xs) = starts_later sep r xs"
proof
  assume "starts_later sep r (x # xs)"
  then obtain pre suf where p: "x # xs = pre @ r @ suf" "pre \<noteq> []" "last pre = sep"
    unfolding starts_later_def by blast
  then obtain pre' where pre: "pre = x # pre'" by (cases pre) auto
  with p assms have "xs = pre' @ r @ suf" and "pre' \<noteq> []" and "last pre' = sep"
    by (auto split: if_splits)
  then show "starts_later sep r xs" unfolding starts_later_def by blast
next
  assume "starts_later sep r xs"
  then obtain pre suf where p: "xs = pre @ r @ suf" "pre \<noteq> []" "last pre = sep"
    unfolding starts_later_def by blast
  then have "x # xs = (x # pre) @ r @ suf" "x # pre \<noteq> []" "last (x # pre) = sep" by auto
  then show "starts_later sep r (x # xs)" unfolding starts_later_def by blast
qed

lemma token_split:
  "(\<exists>tok \<in> set (split sep xs). take (length r) tok = r)
    = (take (length r) (takeWhile (\<lambda>x. x \<noteq> sep) xs) = r
       \<or> (\<exists>tok \<in> set (tl (split sep xs)). take (length r) tok = r))"
proof -
  have "set (split sep xs) = insert (hd (split sep xs)) (set (tl (split sep xs)))"
    using split_not_Nil [of sep xs] by (cases "split sep xs") auto
  then show ?thesis by (simp add: hd_split)
qed

lemma later_tokens:
  "(\<exists>tok \<in> set (tl (split sep xs)). take (length r) tok = r)
    = (sep \<notin> set r \<and> starts_later sep r xs)"
proof (induction xs)
  case Nil
  then show ?case by (simp add: starts_later_Nil)
next
  case (Cons x xs)
  show ?case
  proof (cases "x = sep")
    case True
    have "(\<exists>tok \<in> set (tl (split sep (x # xs))). take (length r) tok = r)
        = (\<exists>tok \<in> set (split sep xs). take (length r) tok = r)"
      using True by simp
    also have "\<dots> = (sep \<notin> set r \<and> ((\<exists>suf. xs = r @ suf) \<or> starts_later sep r xs))"
      by (subst token_split, subst Cons.IH, subst take_takeWhile_iff, subst take_eq_iff_append)
        blast
    also have "\<dots> = (sep \<notin> set r \<and> starts_later sep r (x # xs))"
      using True by (simp add: starts_later_sep starts_token_iff)
    finally show ?thesis .
  next
    case False
    then show ?thesis
      using Cons.IH tl_split_other [of x sep xs] starts_later_other [of x sep r xs]
      by (simp del: split.simps)
  qed
qed

lemma some_token_starts:
  "(\<exists>tok \<in> set (split sep xs). take (length r) tok = r)
    = (sep \<notin> set r \<and> starts_token sep r xs)"
  by (subst token_split, subst later_tokens, subst take_takeWhile_iff, subst take_eq_iff_append,
      subst starts_token_iff) blast

lemma matches_iff:
  "matches request st
    = (CHR '' '' \<notin> set request
       \<and> (\<exists>pre suf. title st = pre @ request @ suf \<and> (pre = [] \<or> last pre = CHR '' '')))"
  by (simp add: matches_def substr0_def list_ex_iff some_token_starts starts_token_def)

text \<open>
  Claim C7, as stated, fails: for the station titled Central, tab, Park the request Park
  starts the whitespace-delimited token Park, so the specification's search returns the
  station, but \<open>search\<close> splits the title at spaces only and returns nothing.
\<close>

theorem C7_search_counterexample:
  "search collection2 ''Park'' = []
   \<and> map title (spec_search collection2 ''Park'') = [''Central'' @ [CHR 0x09] @ ''Park'']"
  by (simp add: search_def spec_search_def matches_def spec_matches_def substr0_def
      collection2_def scheme2_def new_StationCollection_def new_SchemeView_def getStations_def
      new_Station_def is_whitespace_def Let_def)

text \<open>
  Claim C7, amended.  \<open>search(request)\<close> returns, in collection order, exactly the
  stations whose title has a token starting with \<open>request\<close> when the title is split at
  every space character and at no other character: the request contains no space and
  stands in the title at its start or right after a space.  The comparison is on the
  characters as they are.  Over the stations titled Central Park, Centennial and Park
  Row, \<open>search("Cen")\<close> returns the first two in that order.
\<close>

theorem C7_search_space_tokens:
  "search c request
     = filter (\<lambda>st. CHR '' '' \<notin> set request
                  \<and> (\<exists>pre suf. title st = pre @ request @ suf
                        \<and> (pre = [] \<or> last pre = CHR '' '')))
         (map snd (stations c))
   \<and> map title (search collection1 ''Cen'') = [''Central Park'', ''Centennial'']"
proof -
  have "search c request
     = filter (\<lambda>st. CHR '' '' \<notin> set request
                  \<and> (\<exists>pre suf. title st = pre @ request @ suf
                        \<and> (pre = [] \<or> last pre = CHR '' '')))
         (map snd (stations c))"
    unfolding search_def by (rule filter_cong) (simp_all add: matches_iff)
  moreover have "map title (search collection1 ''Cen'') = [''Central Park'', ''Centennial'']"
    by (simp add: search_def matches_def substr0_def collection1_def scheme1_def
        new_StationCollection_def new_SchemeView_def getStations_def new_Station_def Let_def)
  ultimately show ?thesis by blast
qed

section \<open>Fading the scheme layer\<close>

text \<open>
  Claim C8, as stated, fails: on a view whose document has no \<open>scheme-layer\<close> element
  \<open>fadeIn()\<close> and \<open>fadeOut()\<close> raise a TypeError.
\<close>

theorem C8_fade_counterexample:
  "fadeIn (new_SchemeView scheme0) = (Some (TypeError (NullElement SchemeLayer)), new_SchemeView scheme0)
   \<and> fadeOut (new_SchemeView scheme0) = (Some (TypeError (NullElement SchemeLayer)), new_SchemeView scheme0)"
  by (simp add: fadeIn_def fadeOut_def new_SchemeView_def scheme0_def createDom_def Let_def)

text \<open>
  Claim C8, amended.  When the document has the \<open>scheme-layer\<close> element, \<open>fadeIn()\<close> sets
  its opacity to 0.5 and \<open>fadeOut()\<close> sets it to the empty string, and nothing else in the
  view changes; when the element is absent both raise a TypeError and leave the view as
  it was.  No other element of the document is touched in either case.
\<close>

theorem C8_fade:
  "(schemeNode v SchemeLayer = Some e \<longrightarrow>
      fadeIn v = (None, v\<lparr>schemeNode := (schemeNode v)(SchemeLayer \<mapsto> e\<lparr>opacity := CssNum 0.5\<rparr>)\<rparr>)
    \<and> fadeOut v = (None, v\<lparr>schemeNode := (schemeNode v)(SchemeLayer \<mapsto> e\<lparr>opacity := CssText ''''\<rparr>)\<rparr>))
   \<and> (schemeNode v SchemeLayer = None \<longrightarrow>
      fadeIn v = (Some (TypeError (NullElement SchemeLayer)), v)
    \<and> fadeOut v = (Some (TypeError (NullElement SchemeLayer)), v))
   \<and> (i \<noteq> SchemeLayer \<longrightarrow>
      schemeNode (snd (fadeIn v)) i = schemeNode v i
    \<and> schemeNode (snd (fadeOut v)) i = schemeNode v i)
   \<and> (snd (fadeIn v))\<lparr>schemeNode := schemeNode v\<rparr> = v
   \<and> (snd (fadeOut v))\<lparr>schemeNode := schemeNode v\<rparr> = v"
proof -
  have present: "schemeNode v SchemeLayer = Some e \<longrightarrow>
      fadeIn v = (None, v\<lparr>schemeNode := (schemeNode v)(SchemeLayer \<mapsto> e\<lparr>opacity := CssNum 0.5\<rparr>)\<rparr>)
    \<and> fadeOut v = (None, v\<lparr>schemeNode := (schemeNode v)(SchemeLayer \<mapsto> e\<lparr>opacity := CssText ''''\<rparr>)\<rparr>)"
    by (simp add: fadeIn_def fadeOut_def)
  have absent: "schemeNode v SchemeLayer = None \<longrightarrow>
      fadeIn v = (Some (TypeError (NullElement SchemeLayer)), v)
    \<and> fadeOut v = (Some (TypeError (NullElement SchemeLayer)), v)"
    by (simp add: fadeIn_def fadeOut_def)
  have others: "i \<noteq> SchemeLayer \<longrightarrow>
      schemeNode (snd (fadeIn v)) i = schemeNode v i
    \<and> schemeNode (snd (fadeOut v)) i = schemeNode v i"
    by (simp add: fadeIn_def fadeOut_def split: option.splits)
  have rest: "(snd (fadeIn v))\<lparr>schemeNode := schemeNode v\<rparr> = v"
    "(snd (fadeOut v))\<lparr>schemeNode := schemeNode v\<rparr> = v"
    by (simp_all add: fadeIn_def fadeOut_def split: option.splits)
  from present absent others rest show ?thesis by blast
qed

theorem C8_fade_witness:
  "schemeNode view1 SchemeLayer = Some (element0\<lparr>children := [SchemeLayerStations, SchemeLayerLabels]\<rparr>)
   \<and> fst (fadeIn view1) = None
   \<and> map_option opacity (schemeNode (snd (fadeIn view1)) SchemeLayer) = Some (CssNum 0.5)
   \<and> fst (fadeOut (snd (fadeIn view1))) = None
   \<and> map_option opacity (schemeNode (snd (fadeOut (snd (fadeIn view1)))) SchemeLayer) = Some (CssText '''')
   \<and> SchemeLayerLabels \<noteq> SchemeLayer
   \<and> schemeNode (snd (fadeIn view1)) SchemeLayerLabels = schemeNode view1 SchemeLayerLabels
   \<and> schemeNode (new_SchemeView scheme2) SchemeLayer = None
   \<and> fst (fadeIn (new_SchemeView scheme2)) = Some (TypeError (NullElement SchemeLayer))
   \<and> fst (fadeOut (new_SchemeView scheme2)) = Some (TypeError (NullElement SchemeLayer))"
  using C8_fade [of view1 "element0\<lparr>children := [SchemeLayerStations, SchemeLayerLabels]\<rparr>" SchemeLayerLabels]
    C8_fade [of "new_SchemeView scheme2" element0 SchemeLayerLabels]
  by (simp add: view1_def new_SchemeView_def scheme1_def scheme2_def doc1_def createDom_def Let_def
      fadeOut_def)


section \<open>TransportMap: the city table\<close>

lemma lookupSchemeId_unlisted:
  "city \<notin> set (map fst schemeIdByCity) \<Longrightarrow> objectPrototype b city = None \<Longrightarrow>
   lookupSchemeId b city = Undefined"
  by (simp add: lookupSchemeId_def map_of_eq_None_iff [THEN iffD2] split: option.splits)

lemma string_of_nat_1: "string_of_nat (Suc 0) = ''1''"
  by code_simp

lemma join_id_moscow: "join_id (lookupSchemeId b ''moscow'') = ''1''"
  by (simp add: lookupSchemeId_def schemeIdByCity_def join_id_def string_of_nat_1
      del: string_of_nat.simps)

text \<open>
  Claim C6, as stated, fails: for the unlisted city paris, with the language \<open>en\<close>
  supplied, the constructor completes with the scheme id \<open>undefined\<close> and requests
  \<open>node_modules/metro-data/.en.svg\<close>.
\<close>

theorem C6_unknown_city_counterexample:
  "new_TransportMap browser0 ''paris'' (ContainerElement (256, 256)) state0
       (options0\<lparr>lang := Some ''en''\<rparr>)
     = Inr (\<lparr> schemeId = Undefined,
              tm_options = \<lparr> path = Some ''node_modules/metro-data/'', minZoom = Some 0,
                             maxZoom = Some 3, lang = Some ''en'' \<rparr>,
              tm_state = \<lparr> shaded = Some False, center = Some (0, 0), selection = Some [],
                           st_zoom = Some 0 \<rparr>,
              tm_container = Some (256, 256) \<rparr>,
            ''node_modules/metro-data/.en.svg'')"
  by (simp add: new_TransportMap_def lookupSchemeId_def schemeIdByCity_def browser0_def
      extend_options_def extend_state_def state0_def options0_def loadScheme_def join_id_def
      join_string_def getFitZoom_def getZoomFromScale_def SQUARE_SIZE_def Let_def)

text \<open>
  Claim C6, amended.  For a city that is neither in the table nor the name of a member
  inherited from \<open>Object.prototype\<close>, the constructor raises no error of its own: the
  scheme id is \<open>undefined\<close> and the constructor goes on to request the URL made of the
  path, an empty id, a dot, the language and \<open>.svg\<close>.  It fails exactly when it fails for
  a listed city, namely with the TypeError of reading the size of a missing container when
  the state gives no zoom.
\<close>

theorem C6_unknown_city:
  assumes "city \<notin> set (map fst schemeIdByCity)" and "objectPrototype b city = None"
  shows "(case new_TransportMap b city cont s opts of
            Inl e \<Rightarrow>
              e = TypeError NullContainer \<and> st_zoom s = None
              \<and> (case cont of ContainerId i \<Rightarrow> page b i | ContainerElement el \<Rightarrow> Some el) = None
          | Inr (t, url) \<Rightarrow>
              schemeId t = Undefined
              \<and> url = (case path opts of None \<Rightarrow> ''node_modules/metro-data/'' | Some p \<Rightarrow> p)
                      @ ''.'' @ (case lang opts of None \<Rightarrow> '''' | Some l \<Rightarrow> l) @ ''.svg'')
       \<and> isl (new_TransportMap b city cont s opts)
           = isl (new_TransportMap b ''moscow'' cont s opts)"
  using lookupSchemeId_unlisted [OF assms]
  by (simp add: new_TransportMap_def extend_options_def extend_state_def loadScheme_def
      join_id_def join_string_def Let_def split: option.splits container.splits)

theorem C6_unknown_city_witness:
  "''london'' \<notin> set (map fst schemeIdByCity) \<and> objectPrototype browser0 ''london'' = None
   \<and> new_TransportMap browser0 ''london'' (ContainerId ''map'') state0 options0
       = Inl (TypeError NullContainer)
   \<and> new_TransportMap browser0 ''moscow'' (ContainerId ''map'') state0 options0
       = Inl (TypeError NullContainer)
   \<and> map_sum id snd (new_TransportMap browser0 ''london'' (ContainerId ''map'')
        (state0\<lparr>st_zoom := Some 2\<rparr>) (options0\<lparr>lang := Some ''en''\<rparr>))
       = Inr ''node_modules/metro-data/.en.svg''
   \<and> map_sum id snd (new_TransportMap browser0 ''moscow'' (ContainerId ''map'')
        (state0\<lparr>st_zoom := Some 2\<rparr>) (options0\<lparr>lang := Some ''en''\<rparr>))
       = Inr ''node_modules/metro-data/1.en.svg''"
proof -
  have h1: "''london'' \<notin> set (map fst schemeIdByCity)"
    by (simp add: schemeIdByCity_def)
  have h2: "objectPrototype browser0 ''london'' = None"
    by (simp add: browser0_def)
  have m1: "new_TransportMap browser0 ''moscow'' (ContainerId ''map'') state0 options0
       = Inl (TypeError NullContainer)"
    by (simp add: new_TransportMap_def extend_state_def state0_def browser0_def Let_def)
  have a: "new_TransportMap browser0 ''london'' (ContainerId ''map'') state0 options0
       = Inl (TypeError NullContainer)"
    using C6_unknown_city [OF h1 h2, where cont = "ContainerId ''map''"
        and s = state0 and opts = options0] m1
    by (auto split: sum.splits)
  have m2: "map_sum id snd (new_TransportMap browser0 ''moscow'' (ContainerId ''map'')
        (state0\<lparr>st_zoom := Some 2\<rparr>) (options0\<lparr>lang := Some ''en''\<rparr>))
       = Inr ''node_modules/metro-data/1.en.svg''"
    by (simp add: new_TransportMap_def extend_state_def extend_options_def state0_def options0_def
        loadScheme_def join_string_def join_id_moscow Let_def)
  have b: "map_sum id snd (new_TransportMap browser0 ''london'' (ContainerId ''map'')
        (state0\<lparr>st_zoom := Some 2\<rparr>) (options0\<lparr>lang := Some ''en''\<rparr>))
       = Inr ''node_modules/metro-data/.en.svg''"
    using C6_unknown_city [OF h1 h2, where cont = "ContainerId ''map''"
        and s = "state0\<lparr>st_zoom := Some 2\<rparr>" and opts = "options0\<lparr>lang := Some ''en''\<rparr>"] m2
    by (auto simp: options0_def split: sum.splits)
  from h1 h2 a m1 b m2 show ?thesis by blast
qed

end
